theory Spec2Isabelle
  imports Complex_Main
begin

section \<open>Data model\<close>

text \<open>
  The types of \<^verbatim>\<open>src/types\<close>. A test execution record keeps the fields that the
  aggregation in \<^verbatim>\<open>scripts/generate-report.ts\<close> reads. The fields \<^verbatim>\<open>runId\<close>,
  \<^verbatim>\<open>executionMode\<close> and \<^verbatim>\<open>browser\<close> are declared mandatory, but the script guards
  each of them with \<^verbatim>\<open>||\<close>, so they are optional here: \<open>None\<close> is a field missing
  from the stored JSON. Durations and epoch times are whole milliseconds, which
  JavaScript numbers represent exactly; \<open>NaN\<close> is kept as a value of its own.
  The fields of the derived structures carry a prefix (\<open>rg_\<close>, \<open>bs_\<close>, \<open>em_\<close>), since
  several of them have a \<^verbatim>\<open>passed\<close> and a \<^verbatim>\<open>failed\<close> field.
\<close>

datatype TestStatus = Passed | Failed | TimedOut | Skipped | Interrupted

datatype BrowserType = Chromium | Firefox | Webkit

record TestExecutionRecord =
  testId :: string
  runId :: "string option"
  status :: TestStatus
  duration :: int
  timestamp :: string
  executionMode :: "string option"
  browser :: "BrowserType option"

datatype jsnum = NaN | Fin int

text \<open>
  \<^verbatim>\<open>Math.round\<close> of a quotient of two integers: the nearest integer, a tie going up.
\<close>

definition math_round :: "rat \<Rightarrow> int" where
  "math_round x = \<lfloor>x + 1 / 2\<rfloor>"

section \<open>JavaScript values used by the scripts\<close>

text \<open>
  Arithmetic on numbers that may be \<open>NaN\<close>. \<^verbatim>\<open>Math.min\<close> and \<^verbatim>\<open>Math.max\<close> are
  only ever applied to the spread of a non-empty array (the call sits under
  \<^verbatim>\<open>run.results.length > 0\<close>), so they take the first argument and the rest.
\<close>

fun js_add :: "jsnum \<Rightarrow> jsnum \<Rightarrow> jsnum" where
  "js_add (Fin a) (Fin b) = Fin (a + b)"
| "js_add _ _ = NaN"

fun js_sub :: "jsnum \<Rightarrow> jsnum \<Rightarrow> jsnum" where
  "js_sub (Fin a) (Fin b) = Fin (a - b)"
| "js_sub _ _ = NaN"

fun js_min2 :: "jsnum \<Rightarrow> jsnum \<Rightarrow> jsnum" where
  "js_min2 (Fin a) (Fin b) = Fin (min a b)"
| "js_min2 _ _ = NaN"

fun js_max2 :: "jsnum \<Rightarrow> jsnum \<Rightarrow> jsnum" where
  "js_max2 (Fin a) (Fin b) = Fin (max a b)"
| "js_max2 _ _ = NaN"

definition math_min :: "jsnum \<Rightarrow> jsnum list \<Rightarrow> jsnum" where
  "math_min x xs = foldl js_min2 x xs"

definition math_max :: "jsnum \<Rightarrow> jsnum list \<Rightarrow> jsnum" where
  "math_max x xs = foldl js_max2 x xs"

text \<open>\<^verbatim>\<open>x > 0\<close>, false for \<open>NaN\<close>.\<close>

fun js_gt_zero :: "jsnum \<Rightarrow> bool" where
  "js_gt_zero (Fin a) = (0 < a)"
| "js_gt_zero NaN = False"

text \<open>\<^verbatim>\<open>Math.round(x / n)\<close> for a count \<open>n\<close>.\<close>

fun js_round_div :: "jsnum \<Rightarrow> nat \<Rightarrow> jsnum" where
  "js_round_div (Fin a) n = Fin (math_round (of_int a / of_nat n))"
| "js_round_div NaN n = NaN"

text \<open>The quotient of two numbers, which JavaScript never refuses to compute.\<close>

datatype jsquot = QNaN | QInfinity | QNegInfinity | Quot rat

fun js_div :: "jsnum \<Rightarrow> jsnum \<Rightarrow> jsquot" where
  "js_div (Fin a) (Fin b) =
     (if b \<noteq> 0 then Quot (of_int a / of_int b)
      else if a = 0 then QNaN
      else if 0 < a then QInfinity else QNegInfinity)"
| "js_div _ _ = QNaN"

text \<open>
  Doubles. A finite double is \<open>m * 2\<^sup>e\<close>, kept as the pair \<open>(m, e)\<close>; an operation yields
  the double nearest to the exact result, a tie going to the even mantissa. Mantissas
  have 53 bits; magnitudes outside the normal range do not occur in percentages.
  \<open>bit_length\<close> is the number of binary digits, \<open>floor_log2 p q\<close> the integer part of
  the binary logarithm of \<open>p / q\<close> for positive \<open>p\<close> and \<open>q\<close>.
\<close>

type_synonym double = "int \<times> int"

function bit_length :: "int \<Rightarrow> nat" where
  "bit_length n = (if n \<le> 0 then 0 else Suc (bit_length (n div 2)))"
  by pat_completeness auto
termination
  by (relation "measure nat") auto

declare bit_length.simps [simp del]

definition floor_log2 :: "int \<Rightarrow> int \<Rightarrow> int" where
  "floor_log2 p q =
     (let d = int (bit_length p) - int (bit_length q)
      in if (if 0 \<le> d then q * 2 ^ nat d \<le> p else q \<le> p * 2 ^ nat (- d)) then d else d - 1)"

definition round_half_even :: "int \<Rightarrow> int \<Rightarrow> int" where
  "round_half_even n d =
     (let m = n div d; r = n mod d
      in if 2 * r < d then m
         else if d < 2 * r then m + 1
         else if even m then m else m + 1)"

text \<open>The double nearest to \<open>p / q\<close>, for \<open>q > 0\<close>.\<close>

definition nearest_double :: "int \<Rightarrow> int \<Rightarrow> double" where
  "nearest_double p q =
     (if p = 0 then (0, 0)
      else
        (let a = \<bar>p\<bar>;
             e = floor_log2 a q - 52;
             m = (if 0 \<le> e then round_half_even a (q * 2 ^ nat e)
                  else round_half_even (a * 2 ^ nat (- e)) q)
         in (sgn p * m, e)))"

text \<open>\<^verbatim>\<open>a / b\<close> for integers, with \<open>b > 0\<close>; \<^verbatim>\<open>x * k\<close> for a double and an integer.\<close>

definition js_divide :: "int \<Rightarrow> int \<Rightarrow> double" where
  "js_divide a b = nearest_double a b"

definition js_times :: "double \<Rightarrow> int \<Rightarrow> double" where
  "js_times x k =
     (case x of (m, e) \<Rightarrow>
        if 0 \<le> e then nearest_double (m * k * 2 ^ nat e) 1
        else nearest_double (m * k) (2 ^ nat (- e)))"

text \<open>\<^verbatim>\<open>Math.round\<close> of a double: the nearest integer, a tie going up.\<close>

definition math_round_double :: "double \<Rightarrow> int" where
  "math_round_double x =
     (case x of (m, e) \<Rightarrow>
        if 0 \<le> e then m * 2 ^ nat e
        else (2 * m + 2 ^ nat (- e)) div (2 * 2 ^ nat (- e)))"

text \<open>\<^verbatim>\<open>String.prototype.includes\<close>\<close>

fun starts_with :: "string \<Rightarrow> string \<Rightarrow> bool" where
  "starts_with s [] = True"
| "starts_with [] (c # cs) = False"
| "starts_with (x # xs) (c # cs) = (x = c \<and> starts_with xs cs)"

fun js_includes :: "string \<Rightarrow> string \<Rightarrow> bool" where
  "js_includes [] sub = (sub = [])"
| "js_includes (x # xs) sub = (starts_with (x # xs) sub \<or> js_includes xs sub)"

datatype js_error = TypeError | IOError

text \<open>
  A plain object \<^verbatim>\<open>{}\<close>: its own properties in creation order, and behind them the
  properties every object inherits from \<^verbatim>\<open>Object.prototype\<close>. Reading a key finds an
  own property, an inherited one (a function, or the prototype itself for
  \<^verbatim>\<open>__proto__\<close>: truthy, and without a \<^verbatim>\<open>results\<close> field), or nothing.
\<close>

type_synonym 'v js_object = "(string \<times> 'v) list"

definition object_prototype_keys :: "string list" where
  "object_prototype_keys =
     [''constructor'', ''__defineGetter__'', ''__defineSetter__'', ''hasOwnProperty'',
      ''__lookupGetter__'', ''__lookupSetter__'', ''isPrototypeOf'',
      ''propertyIsEnumerable'', ''toString'', ''valueOf'', ''__proto__'',
      ''toLocaleString'']"

datatype 'v property = Own 'v | Inherited | Absent

definition get_property :: "'v js_object \<Rightarrow> string \<Rightarrow> 'v property" where
  "get_property obj k =
     (case map_of obj k of
        Some v \<Rightarrow> Own v
      | None \<Rightarrow> if k \<in> set object_prototype_keys then Inherited else Absent)"

definition update_own :: "string \<Rightarrow> ('v \<Rightarrow> 'v) \<Rightarrow> 'v js_object \<Rightarrow> 'v js_object" where
  "update_own k f obj = map (\<lambda>p. if fst p = k then (fst p, f (snd p)) else p) obj"

text \<open>
  \<^verbatim>\<open>Object.values\<close>: keys that are array indices (canonical decimal numerals below
  \<open>2\<^sup>3\<^sup>2 - 1\<close>) come first, ascending, then the other keys in creation order.
\<close>

definition is_digit :: "char \<Rightarrow> bool" where
  "is_digit c = (48 \<le> (of_char c :: nat) \<and> (of_char c :: nat) \<le> 57)"

definition decimal_value :: "string \<Rightarrow> nat" where
  "decimal_value k = foldl (\<lambda>n c. 10 * n + (of_char c - 48)) 0 k"

definition array_index :: "string \<Rightarrow> nat option" where
  "array_index k =
     (if k \<noteq> [] \<and> list_all is_digit k \<and> (k = ''0'' \<or> take 1 k \<noteq> ''0'')
         \<and> decimal_value k < 4294967295
      then Some (decimal_value k) else None)"

definition index_or_zero :: "string \<Rightarrow> nat" where
  "index_or_zero k = (case array_index k of Some n \<Rightarrow> n | None \<Rightarrow> 0)"

definition object_values :: "'v js_object \<Rightarrow> 'v list" where
  "object_values obj =
     map snd (sort_key (\<lambda>p. index_or_zero (fst p)) (filter (\<lambda>p. array_index (fst p) \<noteq> None) obj))
     @ map snd (filter (\<lambda>p. array_index (fst p) = None) obj)"

section \<open>Browser statistics\<close>

record BrowserBucket =
  b_passed :: nat
  b_failed :: nat
  b_totalDuration :: int
  b_count :: nat

record BrowserStats =
  bs_browser :: BrowserType
  bs_passed :: nat
  bs_failed :: nat
  bs_total :: nat
  bs_avgDuration :: int
  bs_stability :: int

definition empty_bucket :: BrowserBucket where
  "empty_bucket = \<lparr>b_passed = 0, b_failed = 0, b_totalDuration = 0, b_count = 0\<rparr>"

text \<open>\<^verbatim>\<open>record.browser || 'chromium'\<close>\<close>

definition browser_or_default :: "TestExecutionRecord \<Rightarrow> BrowserType" where
  "browser_or_default record = (case browser record of None \<Rightarrow> Chromium | Some b \<Rightarrow> b)"

text \<open>The body of the \<^verbatim>\<open>for (const record of records)\<close> loop.\<close>

definition tally :: "(BrowserType \<Rightarrow> BrowserBucket) \<Rightarrow> TestExecutionRecord \<Rightarrow> (BrowserType \<Rightarrow> BrowserBucket)" where
  "tally stats record =
     (let b = browser_or_default record;
          s1 = (stats b)\<lparr>b_count := b_count (stats b) + 1\<rparr>;
          s2 = s1\<lparr>b_totalDuration := b_totalDuration s1 + duration record\<rparr>;
          s3 = (if status record = Passed then s2\<lparr>b_passed := b_passed s2 + 1\<rparr>
                else s2\<lparr>b_failed := b_failed s2 + 1\<rparr>)
      in stats(b := s3))"

text \<open>
  The entry of one browser. The filter before the \<^verbatim>\<open>map\<close> keeps the counts positive.
  The stability is \<^verbatim>\<open>Math.round((s.passed / s.count) * 100)\<close> on doubles: the quotient is
  rounded to a double, then the product, then the result to an integer.
\<close>

definition browser_entry :: "BrowserType \<times> BrowserBucket \<Rightarrow> BrowserStats" where
  "browser_entry e =
     (case e of (b, s) \<Rightarrow>
       \<lparr>bs_browser = b,
        bs_passed = b_passed s,
        bs_failed = b_failed s,
        bs_total = b_count s,
        bs_avgDuration = math_round (of_int (b_totalDuration s) / of_nat (b_count s)),
        bs_stability = (if b_count s > 0
                        then math_round_double
                               (js_times (js_divide (int (b_passed s)) (int (b_count s))) 100)
                        else 0)\<rparr>)"

text \<open>
  \<^verbatim>\<open>Object.entries(stats)\<close> lists the three keys in the order the literal wrote them.
\<close>

definition calculateBrowserStats :: "TestExecutionRecord list \<Rightarrow> BrowserStats list" where
  "calculateBrowserStats records =
     (let stats = foldl tally (\<lambda>_. empty_bucket) records
      in map browser_entry
           (filter (\<lambda>e. b_count (snd e) > 0)
              (map (\<lambda>b. (b, stats b)) [Chromium, Firefox, Webkit])))"

section \<open>Run aggregation\<close>

datatype ExecutionMode = Parallel | Sequential | Unknown

record RunGroup =
  rg_id :: string
  rg_timestamp :: string
  rg_results :: "TestExecutionRecord list"
  rg_passed :: nat
  rg_failed :: nat
  rg_duration :: int
  rg_wallClockTime :: jsnum
  rg_browsers :: "BrowserType list"
  rg_executionMode :: ExecutionMode

text \<open>\<^verbatim>\<open>run.runId || 'LEGACY-RUN'\<close>: a missing and an empty identifier are both falsy.\<close>

definition run_key :: "TestExecutionRecord \<Rightarrow> string" where
  "run_key run =
     (case runId run of
        None \<Rightarrow> ''LEGACY-RUN''
      | Some s \<Rightarrow> if s = [] then ''LEGACY-RUN'' else s)"

definition new_group :: "string \<Rightarrow> TestExecutionRecord \<Rightarrow> RunGroup" where
  "new_group rId run =
     \<lparr>rg_id = rId, rg_timestamp = timestamp run, rg_results = [], rg_passed = 0,
      rg_failed = 0, rg_duration = 0, rg_wallClockTime = Fin 0, rg_browsers = [],
      rg_executionMode = Unknown\<rparr>"

text \<open>The statements of the reducer that follow the creation of the group.\<close>

definition push_result :: "TestExecutionRecord \<Rightarrow> RunGroup \<Rightarrow> RunGroup" where
  "push_result run g =
     (let g1 = g\<lparr>rg_results := rg_results g @ [run]\<rparr>;
          g2 = (if status run = Passed then g1\<lparr>rg_passed := rg_passed g1 + 1\<rparr>
                else g1\<lparr>rg_failed := rg_failed g1 + 1\<rparr>);
          g3 = g2\<lparr>rg_duration := rg_duration g2 + duration run\<rparr>
      in case browser run of
           None \<Rightarrow> g3
         | Some b \<Rightarrow> if b \<in> set (rg_browsers g3) then g3
                     else g3\<lparr>rg_browsers := rg_browsers g3 @ [b]\<rparr>)"

text \<open>
  One call of the reducer. \<^verbatim>\<open>if (!acc[rId])\<close> creates the group only when the read
  finds nothing at all; \<^verbatim>\<open>acc[rId].results.push(run)\<close> then needs an own group, and
  raises a \<^verbatim>\<open>TypeError\<close> on an inherited value, whose \<^verbatim>\<open>results\<close> is undefined.
\<close>

definition reduce_step :: "RunGroup js_object \<Rightarrow> TestExecutionRecord \<Rightarrow> js_error + RunGroup js_object" where
  "reduce_step acc run =
     (let rId = run_key run;
          acc1 = (case get_property acc rId of
                    Absent \<Rightarrow> acc @ [(rId, new_group rId run)]
                  | _ \<Rightarrow> acc)
      in case get_property acc1 rId of
           Own g \<Rightarrow> Inr (update_own rId (push_result run) acc1)
         | _ \<Rightarrow> Inl TypeError)"

fun group_by_run :: "RunGroup js_object \<Rightarrow> TestExecutionRecord list \<Rightarrow> js_error + RunGroup js_object" where
  "group_by_run acc [] = Inr acc"
| "group_by_run acc (run # rest) =
     (case reduce_step acc run of
        Inl e \<Rightarrow> Inl e
      | Inr acc' \<Rightarrow> group_by_run acc' rest)"

text \<open>\<^verbatim>\<open>run.results[0]?.executionMode || 'unknown'\<close>\<close>

definition mode_tag :: "TestExecutionRecord list \<Rightarrow> string" where
  "mode_tag results =
     (case results of
        [] \<Rightarrow> ''unknown''
      | r # _ \<Rightarrow> (case executionMode r of
                    None \<Rightarrow> ''unknown''
                  | Some m \<Rightarrow> if m = [] then ''unknown'' else m))"

text \<open>
  The second pass over a group; \<open>getTime\<close> stands for
  \<^verbatim>\<open>new Date(s).getTime()\<close>, which is \<open>NaN\<close> for a string that is no date.
\<close>

definition wall_clock_pass :: "(string \<Rightarrow> jsnum) \<Rightarrow> RunGroup \<Rightarrow> RunGroup" where
  "wall_clock_pass getTime run =
     (case rg_results run of
        [] \<Rightarrow> run
      | r # rs \<Rightarrow>
          (let startTime = math_min (getTime (timestamp r)) (map (\<lambda>x. getTime (timestamp x)) rs);
               endTime = math_max (js_add (getTime (timestamp r)) (Fin (duration r)))
                           (map (\<lambda>x. js_add (getTime (timestamp x)) (Fin (duration x))) rs);
               run1 = run\<lparr>rg_wallClockTime := js_sub endTime startTime\<rparr>;
               mode = mode_tag (rg_results run)
           in if js_includes mode ''parallel'' \<or> mode = ''test'' \<or> mode = ''npx''
              then run1\<lparr>rg_executionMode := Parallel\<rparr>
              else if js_includes mode ''sequential''
              then run1\<lparr>rg_executionMode := Sequential\<rparr>
              else run1\<lparr>rg_executionMode := Parallel\<rparr>))"

text \<open>The two passes of \<^verbatim>\<open>generateReport\<close> that build \<^verbatim>\<open>runs\<close>.\<close>

definition aggregate :: "(string \<Rightarrow> jsnum) \<Rightarrow> TestExecutionRecord list \<Rightarrow> js_error + RunGroup js_object" where
  "aggregate getTime history =
     (case group_by_run [] history of
        Inl e \<Rightarrow> Inl e
      | Inr acc \<Rightarrow> Inr (map (\<lambda>p. (fst p, wall_clock_pass getTime (snd p))) acc))"

section \<open>Execution-mode metrics\<close>

record ExecutionModeMetrics =
  em_mode :: string
  em_totalRuns :: nat
  em_totalTests :: nat
  em_avgDuration :: int
  em_avgRunTime :: jsnum
  em_passRate :: int
  em_passed :: nat
  em_failed :: nat
  em_skipped :: nat

record MetricsTotals =
  totalDuration :: int
  totalTests :: nat
  passed :: nat
  failed :: nat
  skipped :: nat
  totalWallClockTime :: jsnum

record ModeComparison =
  parallel :: ExecutionModeMetrics
  sequential :: ExecutionModeMetrics

definition split_step :: "RunGroup list \<times> RunGroup list \<Rightarrow> RunGroup \<Rightarrow> RunGroup list \<times> RunGroup list" where
  "split_step buckets run =
     (case buckets of (parallelRuns, sequentialRuns) \<Rightarrow>
        (let mode = mode_tag (rg_results run)
         in if js_includes mode ''parallel'' \<or> mode = ''test'' \<or> mode = ''npx''
            then (parallelRuns @ [run], sequentialRuns)
            else if js_includes mode ''sequential''
            then (parallelRuns, sequentialRuns @ [run])
            else (parallelRuns @ [run], sequentialRuns)))"

definition count_test :: "MetricsTotals \<Rightarrow> TestExecutionRecord \<Rightarrow> MetricsTotals" where
  "count_test t r =
     (let t1 = t\<lparr>totalTests := totalTests t + 1\<rparr>;
          t2 = t1\<lparr>totalDuration := totalDuration t1 + duration r\<rparr>
      in if status r = Passed then t2\<lparr>passed := passed t2 + 1\<rparr>
         else if status r = Skipped then t2\<lparr>skipped := skipped t2 + 1\<rparr>
         else t2\<lparr>failed := failed t2 + 1\<rparr>)"

definition count_run :: "MetricsTotals \<Rightarrow> RunGroup \<Rightarrow> MetricsTotals" where
  "count_run t run =
     foldl count_test
       (t\<lparr>totalWallClockTime := js_add (totalWallClockTime t) (rg_wallClockTime run)\<rparr>)
       (rg_results run)"

text \<open>
  The metrics of one partition. The pass rate is
  \<^verbatim>\<open>Math.round((passed / totalTests) * 100)\<close> on doubles, as the stability of a browser.
\<close>

definition calcMetrics :: "RunGroup list \<Rightarrow> string \<Rightarrow> ExecutionModeMetrics" where
  "calcMetrics runList mode =
     (if length runList = 0
      then \<lparr>em_mode = mode, em_totalRuns = 0, em_totalTests = 0, em_avgDuration = 0,
            em_avgRunTime = Fin 0, em_passRate = 0, em_passed = 0, em_failed = 0,
            em_skipped = 0\<rparr>
      else
        (let t = foldl count_run
                   \<lparr>totalDuration = 0, totalTests = 0, passed = 0, failed = 0, skipped = 0,
                    totalWallClockTime = Fin 0\<rparr> runList
         in \<lparr>em_mode = mode,
             em_totalRuns = length runList,
             em_totalTests = totalTests t,
             em_avgDuration = (if totalTests t > 0
                               then math_round (of_int (totalDuration t) / of_nat (totalTests t))
                               else 0),
             em_avgRunTime = (if length runList > 0
                              then js_round_div (totalWallClockTime t) (length runList)
                              else Fin 0),
             em_passRate = (if totalTests t > 0
                            then math_round_double
                                   (js_times (js_divide (int (passed t)) (int (totalTests t))) 100)
                            else 0),
             em_passed = passed t,
             em_failed = failed t,
             em_skipped = skipped t\<rparr>))"

definition split_runs :: "RunGroup js_object \<Rightarrow> RunGroup list \<times> RunGroup list" where
  "split_runs runs = foldl split_step ([], []) (object_values runs)"

definition calculateExecutionModeMetrics :: "RunGroup js_object \<Rightarrow> ModeComparison" where
  "calculateExecutionModeMetrics runs =
     (case split_runs runs of (parallelRuns, sequentialRuns) \<Rightarrow>
        \<lparr>parallel = calcMetrics parallelRuns ''Parallel'',
         sequential = calcMetrics sequentialRuns ''Sequential''\<rparr>)"

text \<open>
  The "Performance Gain" cell of the template; \<open>toFixed1\<close> stands for
  \<^verbatim>\<open>Number.prototype.toFixed(1)\<close>.
\<close>

definition speedup_cell :: "(jsquot \<Rightarrow> string) \<Rightarrow> ModeComparison \<Rightarrow> string" where
  "speedup_cell toFixed1 executionMetrics =
     (if js_gt_zero (em_avgRunTime (parallel executionMetrics))
         \<and> js_gt_zero (em_avgRunTime (sequential executionMetrics))
      then toFixed1 (js_div (em_avgRunTime (sequential executionMetrics))
                            (em_avgRunTime (parallel executionMetrics))) @ ''x''
      else ''-'')"

section \<open>History file and report file\<close>

text \<open>
  The two files the scripts touch, and the console. A file is missing, present with
  text, or present and unreadable (a directory, a permission): \<^verbatim>\<open>existsSync\<close> is true
  for it and \<^verbatim>\<open>readFileSync\<close> throws. \<open>write_fails\<close> says that \<^verbatim>\<open>writeFileSync\<close> throws.
\<close>

datatype fs_file = Missing | Unreadable | Content string

datatype console_line = Warn string | Err string | Log string

record disk =
  history_file :: fs_file
  report_file :: fs_file
  write_fails :: bool
  console :: "console_line list"

definition existsSync :: "fs_file \<Rightarrow> bool" where
  "existsSync f = (f \<noteq> Missing)"

definition readFileSync :: "fs_file \<Rightarrow> js_error + string" where
  "readFileSync f = (case f of Content s \<Rightarrow> Inr s | _ \<Rightarrow> Inl IOError)"

text \<open>
  \<^verbatim>\<open>JSON.parse\<close> of the history file throws a \<^verbatim>\<open>SyntaxError\<close>, or yields a value that
  is no array, or yields an array, taken to hold records as the cast in the source says.
\<close>

datatype parsed = SyntaxError | NotAnArray | Records "TestExecutionRecord list"

definition print_line :: "console_line \<Rightarrow> disk \<Rightarrow> disk" where
  "print_line l d = d\<lparr>console := console d @ [l]\<rparr>"

text \<open>\<^verbatim>\<open>history.slice(-n)\<close>\<close>

definition slice_last :: "nat \<Rightarrow> 'a list \<Rightarrow> 'a list" where
  "slice_last n xs = drop (length xs - n) xs"

text \<open>
  \<^verbatim>\<open>generateReport\<close>. The template literal is the parameter \<open>template\<close>, a function of
  the history and of the values computed from it. The console messages are written
  without their pictographs.
\<close>

definition generateReport ::
  "(string \<Rightarrow> jsnum) \<Rightarrow> (string \<Rightarrow> parsed)
   \<Rightarrow> (TestExecutionRecord list \<Rightarrow> RunGroup js_object \<Rightarrow> BrowserStats list \<Rightarrow> ModeComparison \<Rightarrow> string)
   \<Rightarrow> disk \<Rightarrow> js_error + disk" where
  "generateReport getTime json_parse template d =
     (if \<not> existsSync (history_file d)
      then Inr (print_line (Warn ''No history found. Run tests first.'') d)
      else
        (case readFileSync (history_file d) of
           Inl e \<Rightarrow> Inl e
         | Inr rawData \<Rightarrow>
            (case json_parse rawData of
               SyntaxError \<Rightarrow> Inr (print_line (Err ''Error parsing history file'') d)
             | NotAnArray \<Rightarrow> Inl TypeError
             | Records history \<Rightarrow>
                (case aggregate getTime history of
                   Inl e \<Rightarrow> Inl e
                 | Inr runs \<Rightarrow>
                    (let recentHistory = slice_last 100 history;
                         browserStats = calculateBrowserStats recentHistory;
                         executionMetrics = calculateExecutionModeMetrics runs;
                         html = template history runs browserStats executionMetrics
                     in if write_fails d then Inl IOError
                        else Inr (print_line (Log ''Infinity Dashboard 4.0 Generated Successfully!'')
                                    (d\<lparr>report_file := Content html\<rparr>)))))))"



section \<open>Waiting for a stable count\<close>

record WaitOptions =
  wo_timeout :: "int option"
  wo_stabilityThreshold :: "int option"
  wo_pollInterval :: "int option"

record WaitDefaults =
  default_timeout :: int
  default_stabilityThreshold :: int
  default_pollInterval :: int

definition DEFAULT_WAIT_OPTIONS :: WaitDefaults where
  "DEFAULT_WAIT_OPTIONS =
     \<lparr>default_timeout = 5000, default_stabilityThreshold = 100, default_pollInterval = 50\<rparr>"

text \<open>The destructuring defaults of \<^verbatim>\<open>waitForStableCount\<close>.\<close>

definition timeout_of :: "WaitOptions \<Rightarrow> int" where
  "timeout_of options =
     (case wo_timeout options of None \<Rightarrow> default_timeout DEFAULT_WAIT_OPTIONS | Some t \<Rightarrow> t)"

definition stabilityThreshold_of :: "WaitOptions \<Rightarrow> int" where
  "stabilityThreshold_of options =
     (case wo_stabilityThreshold options of
        None \<Rightarrow> default_stabilityThreshold DEFAULT_WAIT_OPTIONS | Some t \<Rightarrow> t)"

definition pollInterval_of :: "WaitOptions \<Rightarrow> int" where
  "pollInterval_of options =
     (case wo_pollInterval options of None \<Rightarrow> default_pollInterval DEFAULT_WAIT_OPTIONS | Some t \<Rightarrow> t)"

text \<open>How a promise settles.\<close>

datatype 'a settled = Resolved 'a | Rejected string

text \<open>
  The \<^verbatim>\<open>while\<close> loop of \<^verbatim>\<open>waitForStableCount\<close>. The page is the number of matching
  elements at each instant, \<open>count_at\<close>, in milliseconds of \<^verbatim>\<open>Date.now()\<close>; the clock
  \<open>now\<close> advances while the page waits, by the interval asked for, and stands still
  otherwise. A loop that never ends has the value \<open>None\<close>.
\<close>

partial_function (option) poll_count ::
  "(int \<Rightarrow> nat) \<Rightarrow> int \<Rightarrow> int \<Rightarrow> int \<Rightarrow> int \<Rightarrow> nat \<Rightarrow> int \<Rightarrow> int \<Rightarrow> nat option" where
  "poll_count count_at timeout stabilityThreshold pollInterval startTime lastCount stableStart now =
     (if now - startTime < timeout
      then
        (let now1 = now + max 0 pollInterval;
             currentCount = count_at now1
         in if currentCount \<noteq> lastCount
            then poll_count count_at timeout stabilityThreshold pollInterval startTime
                   currentCount now1 now1
            else if now1 - stableStart \<ge> stabilityThreshold
            then Some currentCount
            else poll_count count_at timeout stabilityThreshold pollInterval startTime
                   lastCount stableStart now1)
      else Some lastCount)"

declare poll_count.simps [code]

definition waitForStableCount :: "(int \<Rightarrow> nat) \<Rightarrow> WaitOptions \<Rightarrow> int \<Rightarrow> nat settled option" where
  "waitForStableCount count_at options now =
     map_option Resolved
       (poll_count count_at (timeout_of options) (stabilityThreshold_of options)
          (pollInterval_of options) now (count_at now) now now)"

section \<open>Notions used in the statements\<close>


text \<open>The records of a window that the loop files under browser \<open>b\<close>.\<close>

definition records_of :: "BrowserType \<Rightarrow> TestExecutionRecord list \<Rightarrow> TestExecutionRecord list" where
  "records_of b records = filter (\<lambda>r. browser_or_default r = b) records"

text \<open>Tallies of a list of records by status, and the sum of their durations.\<close>

definition count_passed :: "TestExecutionRecord list \<Rightarrow> nat" where
  "count_passed rs = length (filter (\<lambda>r. status r = Passed) rs)"

definition count_not_passed :: "TestExecutionRecord list \<Rightarrow> nat" where
  "count_not_passed rs = length (filter (\<lambda>r. status r \<noteq> Passed) rs)"

definition count_skipped :: "TestExecutionRecord list \<Rightarrow> nat" where
  "count_skipped rs = length (filter (\<lambda>r. status r = Skipped) rs)"

definition count_failed :: "TestExecutionRecord list \<Rightarrow> nat" where
  "count_failed rs = length (filter (\<lambda>r. status r \<noteq> Passed \<and> status r \<noteq> Skipped) rs)"

definition total_duration :: "TestExecutionRecord list \<Rightarrow> int" where
  "total_duration rs = sum_list (map duration rs)"

text \<open>All the records of a list of runs.\<close>

definition tests_of :: "RunGroup list \<Rightarrow> TestExecutionRecord list" where
  "tests_of runList = concat (map rg_results runList)"

text \<open>The records of a history that the grouping fold files under key \<open>k\<close>, in order.\<close>

definition keyed :: "string \<Rightarrow> TestExecutionRecord list \<Rightarrow> TestExecutionRecord list" where
  "keyed k hs = filter (\<lambda>r. run_key r = k) hs"

text \<open>
  The invariant of the grouping fold: after the records \<open>hs\<close>, the accumulator has one
  own group for each key met so far, none under an inherited name, and each group
  holds exactly the records of its key with their tallies.
\<close>

definition group_ok :: "TestExecutionRecord list \<Rightarrow> string \<times> RunGroup \<Rightarrow> bool" where
  "group_ok hs p =
     (fst p \<notin> set object_prototype_keys
      \<and> rg_id (snd p) = fst p
      \<and> keyed (fst p) hs \<noteq> []
      \<and> rg_results (snd p) = keyed (fst p) hs
      \<and> rg_timestamp (snd p) = timestamp (hd (keyed (fst p) hs))
      \<and> rg_passed (snd p) = count_passed (keyed (fst p) hs)
      \<and> rg_failed (snd p) = count_not_passed (keyed (fst p) hs)
      \<and> rg_duration (snd p) = total_duration (keyed (fst p) hs))"

definition acc_ok :: "TestExecutionRecord list \<Rightarrow> RunGroup js_object \<Rightarrow> bool" where
  "acc_ok hs acc =
     (distinct (map fst acc)
      \<and> list_all (group_ok hs) acc
      \<and> list_all (\<lambda>r. run_key r \<in> set (map fst acc)) hs)"

text \<open>
  The start and the end of a record as the second pass computes them, and the start as
  an integer when the timestamp parses.
\<close>

definition start_ms :: "(string \<Rightarrow> jsnum) \<Rightarrow> TestExecutionRecord \<Rightarrow> jsnum" where
  "start_ms getTime x = getTime (timestamp x)"

definition end_ms :: "(string \<Rightarrow> jsnum) \<Rightarrow> TestExecutionRecord \<Rightarrow> jsnum" where
  "end_ms getTime x = js_add (getTime (timestamp x)) (Fin (duration x))"

definition epoch_ms :: "(string \<Rightarrow> jsnum) \<Rightarrow> TestExecutionRecord \<Rightarrow> int" where
  "epoch_ms getTime x = (case getTime (timestamp x) of Fin t \<Rightarrow> t | NaN \<Rightarrow> 0)"

text \<open>The rule of classification in the words of the specification.\<close>

definition classify_tag :: "string \<Rightarrow> ExecutionMode" where
  "classify_tag tag =
     (if js_includes tag ''parallel'' \<or> tag = ''test'' \<or> tag = ''npx'' then Parallel
      else if js_includes tag ''sequential'' then Sequential
      else Parallel)"

text \<open>The rule applied to the tag of the first result of a run.\<close>

definition run_class :: "RunGroup \<Rightarrow> ExecutionMode" where
  "run_class run = classify_tag (mode_tag (rg_results run))"

text \<open>
  The polls of a wait that starts at \<open>start\<close> with interval \<open>p\<close>: poll \<open>k\<close> reads the count
  at \<open>start + k * p\<close>, poll 0 being the read before the loop. Poll \<open>k\<close> is quiet when the
  counts of polls \<open>j\<close> to \<open>k\<close> are all the same, for some earlier poll \<open>j\<close> that lies at
  least \<open>threshold\<close> milliseconds back. The wait settles at poll \<open>k\<close> when the timeout has
  passed at that poll, or the next poll is quiet.
\<close>

definition poll_time :: "int \<Rightarrow> int \<Rightarrow> nat \<Rightarrow> int" where
  "poll_time start p k = start + int k * p"

definition quiet_poll :: "(int \<Rightarrow> nat) \<Rightarrow> int \<Rightarrow> int \<Rightarrow> int \<Rightarrow> nat \<Rightarrow> bool" where
  "quiet_poll count_at start p threshold k =
     (\<exists>j < k. (\<forall>i \<in> {j..k}. count_at (poll_time start p i) = count_at (poll_time start p k))
              \<and> threshold \<le> poll_time start p k - poll_time start p j)"

definition settles_at :: "(int \<Rightarrow> nat) \<Rightarrow> int \<Rightarrow> int \<Rightarrow> int \<Rightarrow> int \<Rightarrow> nat \<Rightarrow> bool" where
  "settles_at count_at start p timeout threshold k =
     (timeout \<le> poll_time start p k - start \<or> quiet_poll count_at start p threshold (Suc k))"

section \<open>Sample inputs\<close>

text \<open>
  The values of \<^verbatim>\<open>new Date(s).getTime()\<close> on three timestamps; every other string is
  taken as no date.
\<close>

definition sample_clock :: "string \<Rightarrow> jsnum" where
  "sample_clock s =
     (if s = ''1970-01-01T00:00:00.000Z'' then Fin 0
      else if s = ''1970-01-01T00:00:01.000Z'' then Fin 1000
      else if s = ''1970-01-01T00:00:02.000Z'' then Fin 2000
      else NaN)"


text \<open>Forty chromium records, twenty-three of them passed.\<close>

definition tie_sample :: "TestExecutionRecord list" where
  "tie_sample =
     replicate 23 \<lparr>testId = ''TC1'', runId = Some ''RUN-1'', status = Passed, duration = 10,
                   timestamp = ''1970-01-01T00:00:00.000Z'', executionMode = Some ''test'',
                   browser = Some Chromium\<rparr>
     @ replicate 17 \<lparr>testId = ''TC2'', runId = Some ''RUN-1'', status = Failed, duration = 10,
                     timestamp = ''1970-01-01T00:00:00.000Z'', executionMode = Some ''test'',
                     browser = Some Chromium\<rparr>"

text \<open>Two legacy records, the first without a browser.\<close>

definition legacy_browser_sample :: "TestExecutionRecord list" where
  "legacy_browser_sample =
     [\<lparr>testId = ''TC1'', runId = None, status = Passed, duration = 101,
       timestamp = ''1970-01-01T00:00:00.000Z'', executionMode = None, browser = None\<rparr>,
      \<lparr>testId = ''TC2'', runId = None, status = Skipped, duration = 50,
       timestamp = ''1970-01-01T00:00:01.000Z'', executionMode = None, browser = Some Chromium\<rparr>]"

text \<open>
  Three records of one run, started at 0 s, 1 s and 2 s, and the group that the
  aggregation makes of them.
\<close>

definition scenario_a :: "TestExecutionRecord list" where
  "scenario_a =
     [\<lparr>testId = ''TC1'', runId = Some ''RUN-1'', status = Passed, duration = 100,
       timestamp = ''1970-01-01T00:00:00.000Z'', executionMode = Some ''test'',
       browser = Some Chromium\<rparr>,
      \<lparr>testId = ''TC2'', runId = Some ''RUN-1'', status = Passed, duration = 150,
       timestamp = ''1970-01-01T00:00:01.000Z'', executionMode = Some ''test'',
       browser = Some Chromium\<rparr>,
      \<lparr>testId = ''TC3'', runId = Some ''RUN-1'', status = Failed, duration = 200,
       timestamp = ''1970-01-01T00:00:02.000Z'', executionMode = Some ''test'',
       browser = Some Firefox\<rparr>]"

definition scenario_a_group :: RunGroup where
  "scenario_a_group =
     \<lparr>rg_id = ''RUN-1'', rg_timestamp = ''1970-01-01T00:00:00.000Z'',
      rg_results = scenario_a, rg_passed = 2, rg_failed = 1, rg_duration = 450,
      rg_wallClockTime = Fin 2200, rg_browsers = [Chromium, Firefox],
      rg_executionMode = Parallel\<rparr>"

text \<open>
  A sequential run of two records, one of them skipped, a parallel run of one record
  that timed out, and a legacy record without run, mode or browser; then the runs and
  the metrics that the script computes from them.
\<close>

definition mixed_sample :: "TestExecutionRecord list" where
  "mixed_sample =
     [\<lparr>testId = ''TC1'', runId = Some ''RUN-1'', status = Passed, duration = 100,
       timestamp = ''1970-01-01T00:00:00.000Z'', executionMode = Some ''sequential-run'',
       browser = Some Chromium\<rparr>,
      \<lparr>testId = ''TC2'', runId = Some ''RUN-1'', status = Skipped, duration = 0,
       timestamp = ''1970-01-01T00:00:01.000Z'', executionMode = Some ''sequential-run'',
       browser = Some Chromium\<rparr>,
      \<lparr>testId = ''TC3'', runId = Some ''RUN-2'', status = TimedOut, duration = 200,
       timestamp = ''1970-01-01T00:00:02.000Z'', executionMode = Some ''parallel-tests'',
       browser = Some Firefox\<rparr>,
      \<lparr>testId = ''TC4'', runId = None, status = Passed, duration = 50,
       timestamp = ''1970-01-01T00:00:00.000Z'', executionMode = None,
       browser = None\<rparr>]"

definition mixed_runs :: "RunGroup js_object" where
  "mixed_runs =
     [(''RUN-1'',
       \<lparr>rg_id = ''RUN-1'', rg_timestamp = ''1970-01-01T00:00:00.000Z'',
        rg_results = take 2 mixed_sample, rg_passed = 1, rg_failed = 1, rg_duration = 100,
        rg_wallClockTime = Fin 1000, rg_browsers = [Chromium],
        rg_executionMode = Sequential\<rparr>),
      (''RUN-2'',
       \<lparr>rg_id = ''RUN-2'', rg_timestamp = ''1970-01-01T00:00:02.000Z'',
        rg_results = take 1 (drop 2 mixed_sample), rg_passed = 0, rg_failed = 1,
        rg_duration = 200, rg_wallClockTime = Fin 200, rg_browsers = [Firefox],
        rg_executionMode = Parallel\<rparr>),
      (''LEGACY-RUN'',
       \<lparr>rg_id = ''LEGACY-RUN'', rg_timestamp = ''1970-01-01T00:00:00.000Z'',
        rg_results = drop 3 mixed_sample, rg_passed = 1, rg_failed = 0, rg_duration = 50,
        rg_wallClockTime = Fin 50, rg_browsers = [],
        rg_executionMode = Parallel\<rparr>)]"

definition mixed_metrics :: ModeComparison where
  "mixed_metrics =
     \<lparr>parallel =
        \<lparr>em_mode = ''Parallel'', em_totalRuns = 2, em_totalTests = 2, em_avgDuration = 125,
         em_avgRunTime = Fin 125, em_passRate = 50, em_passed = 1, em_failed = 1,
         em_skipped = 0\<rparr>,
      sequential =
        \<lparr>em_mode = ''Sequential'', em_totalRuns = 1, em_totalTests = 2, em_avgDuration = 50,
         em_avgRunTime = Fin 1000, em_passRate = 50, em_passed = 1, em_failed = 0,
         em_skipped = 1\<rparr>\<rparr>"

text \<open>A record whose run identifier is the name of an inherited property.\<close>

definition inherited_key_record :: TestExecutionRecord where
  "inherited_key_record =
     \<lparr>testId = ''TC1'', runId = Some ''constructor'', status = Passed, duration = 100,
      timestamp = ''1970-01-01T00:00:00.000Z'', executionMode = Some ''test'',
      browser = Some Chromium\<rparr>"

text \<open>Stand-ins for \<^verbatim>\<open>JSON.parse\<close> and \<^verbatim>\<open>JSON.stringify\<close> on a few texts.\<close>

definition sample_parse :: "string \<Rightarrow> parsed" where
  "sample_parse s =
     (if s = ''[]'' then Records []
      else if s = ''{}'' then NotAnArray
      else SyntaxError)"


text \<open>
  Stand-ins for \<^verbatim>\<open>toFixed(1)\<close>, right on the quotient 8, and for the template, of which
  only the speedup cell is kept.
\<close>

definition sample_toFixed1 :: "jsquot \<Rightarrow> string" where
  "sample_toFixed1 q = (if q = Quot 8 then ''8.0'' else ''0.0'')"

definition sample_template ::
  "TestExecutionRecord list \<Rightarrow> RunGroup js_object \<Rightarrow> BrowserStats list \<Rightarrow> ModeComparison \<Rightarrow> string" where
  "sample_template history runs browserStats executionMetrics =
     ''<div>'' @ speedup_cell sample_toFixed1 executionMetrics @ ''</div>''"

text \<open>A disk with a given history file, no report, and working writes.\<close>

definition sample_disk :: "fs_file \<Rightarrow> disk" where
  "sample_disk f = \<lparr>history_file = f, report_file = Missing, write_fails = False, console = []\<rparr>"



text \<open>A list that gains or loses its only row every 50 ms.\<close>

definition flicker :: "int \<Rightarrow> nat" where
  "flicker t = (if even (t div 50) then 0 else 1)"

text \<open>A list of three rows that gains a fourth after 300 ms; and no options at all.\<close>

definition growing :: "int \<Rightarrow> nat" where
  "growing t = (if t < 300 then 3 else 4)"

definition no_options :: WaitOptions where
  "no_options = \<lparr>wo_timeout = None, wo_stabilityThreshold = None, wo_pollInterval = None\<rparr>"

definition flicker_options :: WaitOptions where
  "flicker_options = \<lparr>wo_timeout = Some 200, wo_stabilityThreshold = Some 100, wo_pollInterval = Some 50\<rparr>"

section \<open>Browser statistics: proofs\<close>

lemma tally_other:
  "browser_or_default r \<noteq> b \<Longrightarrow> tally stats r b = stats b"
  by (simp add: tally_def Let_def)

lemma tally_same:
  "browser_or_default r = b \<Longrightarrow>
     b_count (tally stats r b) = b_count (stats b) + 1 \<and>
     b_totalDuration (tally stats r b) = b_totalDuration (stats b) + duration r \<and>
     b_passed (tally stats r b) = b_passed (stats b) + (if status r = Passed then 1 else 0) \<and>
     b_failed (tally stats r b) = b_failed (stats b) + (if status r = Passed then 0 else 1)"
  by (simp add: tally_def Let_def)

lemma foldl_tally:
  "b_count (foldl tally stats rs b) = b_count (stats b) + length (records_of b rs) \<and>
   b_totalDuration (foldl tally stats rs b) = b_totalDuration (stats b) + total_duration (records_of b rs) \<and>
   b_passed (foldl tally stats rs b) = b_passed (stats b) + count_passed (records_of b rs) \<and>
   b_failed (foldl tally stats rs b) = b_failed (stats b) + count_not_passed (records_of b rs)"
proof (induction rs arbitrary: stats)
  case Nil
  show ?case
    by (simp add: records_of_def total_duration_def count_passed_def count_not_passed_def)
next
  case (Cons r rs)
  show ?case
  proof (cases "browser_or_default r = b")
    case True
    with Cons [of "tally stats r"] tally_same [OF True, of stats] show ?thesis
      by (simp add: records_of_def total_duration_def count_passed_def count_not_passed_def)
  next
    case False
    with Cons [of "tally stats r"] tally_other [OF False, of stats] show ?thesis
      by (simp add: records_of_def total_duration_def count_passed_def count_not_passed_def)
  qed
qed

lemma bucket_of_window:
  "b_count (foldl tally (\<lambda>_. empty_bucket) records b) = length (records_of b records) \<and>
   b_totalDuration (foldl tally (\<lambda>_. empty_bucket) records b) = total_duration (records_of b records) \<and>
   b_passed (foldl tally (\<lambda>_. empty_bucket) records b) = count_passed (records_of b records) \<and>
   b_failed (foldl tally (\<lambda>_. empty_bucket) records b) = count_not_passed (records_of b records)"
  using foldl_tally [of "\<lambda>_. empty_bucket" records b] by (simp add: empty_bucket_def)

lemma browser_stats_browsers:
  "map bs_browser (calculateBrowserStats records)
     = filter (\<lambda>b. records_of b records \<noteq> []) [Chromium, Firefox, Webkit]"
  by (simp add: calculateBrowserStats_def Let_def browser_entry_def bucket_of_window)

lemma browser_stats_entry:
  assumes "e \<in> set (calculateBrowserStats records)"
  shows "e = browser_entry (bs_browser e, foldl tally (\<lambda>_. empty_bucket) records (bs_browser e))
         \<and> records_of (bs_browser e) records \<noteq> []"
  using assms
  by (auto simp add: calculateBrowserStats_def Let_def browser_entry_def bucket_of_window split: if_splits)

lemma floor_numeral_quotient:
  "\<lfloor>(numeral a :: rat) / numeral b\<rfloor> = numeral a div numeral b"
  using floor_divide_of_int_eq [of "numeral a" "numeral b", where ?'a = rat] by simp

text \<open>
  Percentages on doubles. 23 of 40 is the double just below 0.575, and its product with
  100 the double just below 57.5, so that it is rounded to 57.
\<close>

lemma nearest_double_tenth: "nearest_double 1 10 = (7205759403792794, - 56)"
  by code_simp



lemma percent_1_of_2: "math_round_double (js_times (js_divide 1 2) 100) = 50"
  by code_simp

lemma percent_23_of_40: "math_round_double (js_times (js_divide 23 40) 100) = 57"
  by code_simp




text \<open>A window of 40 records with 23 passed has stability 57.\<close>

lemma tie_sample_stability:
  "map bs_stability (calculateBrowserStats tie_sample) = [57]"
proof -
  have c: "records_of Chromium tie_sample = tie_sample"
    and f: "records_of Firefox tie_sample = []"
    and w: "records_of Webkit tie_sample = []"
    by (simp_all add: records_of_def tie_sample_def browser_or_default_def)
  have n: "length tie_sample = 40" and p: "count_passed tie_sample = 23"
    by (simp_all add: tie_sample_def count_passed_def)
  show ?thesis
    by (simp add: calculateBrowserStats_def Let_def browser_entry_def bucket_of_window
        c f w n p percent_23_of_40)
qed

text \<open>
  Claim C10. A record whose \<^verbatim>\<open>browser\<close> field is missing or empty is neither dropped nor
  an error: it is tallied in the chromium bucket. Whenever the window holds such a
  record, a chromium entry is emitted, and its count, pass and fail tallies and average
  duration range over the records without a browser together with those of chromium.
\<close>

theorem missing_browser_counted_as_chromium:
  assumes "r \<in> set records" and "browser r = None"
  shows "\<exists>e \<in> set (calculateBrowserStats records).
           bs_browser e = Chromium
         \<and> records_of Chromium records
             = filter (\<lambda>x. browser x = None \<or> browser x = Some Chromium) records
         \<and> r \<in> set (records_of Chromium records)
         \<and> bs_total e = length (records_of Chromium records)
         \<and> bs_passed e = count_passed (records_of Chromium records)
         \<and> bs_failed e = count_not_passed (records_of Chromium records)
         \<and> bs_avgDuration e
             = math_round (of_int (total_duration (records_of Chromium records))
                           / of_nat (length (records_of Chromium records)))"
proof -
  have mem: "r \<in> set (records_of Chromium records)"
    using assms by (simp add: records_of_def browser_or_default_def)
  then have ne: "records_of Chromium records \<noteq> []" by auto
  have "Chromium \<in> set (map bs_browser (calculateBrowserStats records))"
    using ne by (simp add: browser_stats_browsers)
  then obtain e where e: "e \<in> set (calculateBrowserStats records)" and b: "bs_browser e = Chromium"
    by auto
  let ?s = "foldl tally (\<lambda>_. empty_bucket) records Chromium"
  from browser_stats_entry [OF e] b have eq: "e = browser_entry (Chromium, ?s)" by simp
  have flt: "records_of Chromium records
             = filter (\<lambda>x. browser x = None \<or> browser x = Some Chromium) records"
    unfolding records_of_def
    by (rule filter_cong) (auto simp add: browser_or_default_def split: option.splits)
  have "bs_total e = length (records_of Chromium records)"
    by (subst eq) (simp add: browser_entry_def bucket_of_window)
  moreover have "bs_passed e = count_passed (records_of Chromium records)"
    by (subst eq) (simp add: browser_entry_def bucket_of_window)
  moreover have "bs_failed e = count_not_passed (records_of Chromium records)"
    by (subst eq) (simp add: browser_entry_def bucket_of_window)
  moreover have "bs_avgDuration e
             = math_round (of_int (total_duration (records_of Chromium records))
                           / of_nat (length (records_of Chromium records)))"
    by (subst eq) (simp add: browser_entry_def bucket_of_window)
  ultimately show ?thesis using e b flt mem by blast
qed

theorem missing_browser_counted_as_chromium_witness:
  "calculateBrowserStats legacy_browser_sample
     = [\<lparr>bs_browser = Chromium, bs_passed = 1, bs_failed = 1, bs_total = 2,
         bs_avgDuration = 76, bs_stability = 50\<rparr>]
   \<and> (\<exists>e \<in> set (calculateBrowserStats legacy_browser_sample). bs_browser e = Chromium)"
proof -
  have ev: "calculateBrowserStats legacy_browser_sample
     = [\<lparr>bs_browser = Chromium, bs_passed = 1, bs_failed = 1, bs_total = 2,
         bs_avgDuration = 76, bs_stability = 50\<rparr>]"
    by (simp add: calculateBrowserStats_def legacy_browser_sample_def tally_def
        browser_or_default_def empty_bucket_def browser_entry_def math_round_def Let_def
        floor_numeral_quotient percent_1_of_2)
  have m: "hd legacy_browser_sample \<in> set legacy_browser_sample"
    by (simp add: legacy_browser_sample_def)
  have n: "browser (hd legacy_browser_sample) = None"
    by (simp add: legacy_browser_sample_def)
  from missing_browser_counted_as_chromium [OF m n]
  have "\<exists>e \<in> set (calculateBrowserStats legacy_browser_sample). bs_browser e = Chromium"
    by blast
  with ev show ?thesis by simp
qed

section \<open>The grouping fold\<close>

lemma map_of_None_iff: "map_of acc k = None \<longleftrightarrow> k \<notin> set (map fst acc)"
  by (simp add: map_of_eq_None_iff)

lemma update_own_keys: "map fst (update_own k f acc) = map fst acc"
  by (induction acc) (auto simp add: update_own_def)

lemma update_own_set:
  "set (update_own k f acc) = (\<lambda>p. if fst p = k then (fst p, f (snd p)) else p) ` set acc"
  by (simp add: update_own_def)

lemma reduce_step_cases:
  "reduce_step acc run =
     (case map_of acc (run_key run) of
        Some g \<Rightarrow> Inr (update_own (run_key run) (push_result run) acc)
      | None \<Rightarrow> if run_key run \<in> set object_prototype_keys then Inl TypeError
                else Inr (acc @ [(run_key run, push_result run (new_group (run_key run) run))]))"
proof (cases "map_of acc (run_key run)")
  case None
  then have nk: "run_key run \<notin> fst ` set acc" by (simp add: map_of_eq_None_iff)
  have upd: "update_own (run_key run) f acc = acc" for f
    unfolding update_own_def by (rule map_idI) (use nk in force)
  show ?thesis using None upd
    by (simp add: reduce_step_def get_property_def Let_def update_own_def map_add_def)
next
  case (Some g)
  then show ?thesis
    by (simp add: reduce_step_def get_property_def Let_def)
qed

lemma keyed_snoc: "keyed k (hs @ [r]) = (if run_key r = k then keyed k hs @ [r] else keyed k hs)"
  by (simp add: keyed_def)

lemma push_result_fields:
  "rg_id (push_result r g) = rg_id g \<and>
   rg_timestamp (push_result r g) = rg_timestamp g \<and>
   rg_results (push_result r g) = rg_results g @ [r] \<and>
   rg_passed (push_result r g) = rg_passed g + (if status r = Passed then 1 else 0) \<and>
   rg_failed (push_result r g) = rg_failed g + (if status r = Passed then 0 else 1) \<and>
   rg_duration (push_result r g) = rg_duration g + duration r \<and>
   rg_wallClockTime (push_result r g) = rg_wallClockTime g \<and>
   rg_executionMode (push_result r g) = rg_executionMode g"
  by (simp add: push_result_def Let_def split: option.splits)

lemma counts_snoc:
  "count_passed (rs @ [r]) = count_passed rs + (if status r = Passed then 1 else 0)"
  "count_not_passed (rs @ [r]) = count_not_passed rs + (if status r = Passed then 0 else 1)"
  "total_duration (rs @ [r]) = total_duration rs + duration r"
  by (simp_all add: count_passed_def count_not_passed_def total_duration_def)

lemma group_ok_push:
  assumes "group_ok hs (k, g)" and "run_key r = k"
  shows "group_ok (hs @ [r]) (k, push_result r g)"
  using assms
  by (simp add: group_ok_def keyed_snoc push_result_fields counts_snoc)

lemma group_ok_other:
  assumes "group_ok hs p" and "run_key r \<noteq> fst p"
  shows "group_ok (hs @ [r]) p"
  using assms by (simp add: group_ok_def keyed_snoc)

lemma group_ok_new:
  assumes "keyed (run_key r) hs = []" and "run_key r \<notin> set object_prototype_keys"
  shows "group_ok (hs @ [r]) (run_key r, push_result r (new_group (run_key r) r))"
  using assms
  by (simp add: group_ok_def keyed_snoc push_result_fields counts_snoc new_group_def
      count_passed_def count_not_passed_def total_duration_def)

lemma reduce_step_ok:
  assumes ok: "acc_ok hs acc" and step: "reduce_step acc r = Inr acc'"
  shows "acc_ok (hs @ [r]) acc'"
proof (cases "map_of acc (run_key r)")
  case (Some g)
  with step have acc': "acc' = update_own (run_key r) (push_result r) acc"
    by (simp add: reduce_step_cases)
  from Some have key: "run_key r \<in> set (map fst acc)"
    by (metis map_of_None_iff option.distinct(1))
  have "list_all (group_ok (hs @ [r])) acc'"
    unfolding acc' list_all_iff update_own_set
  proof
    fix q assume "q \<in> (\<lambda>p. if fst p = run_key r then (fst p, push_result r (snd p)) else p) ` set acc"
    then obtain p where p: "p \<in> set acc"
      and q: "q = (if fst p = run_key r then (fst p, push_result r (snd p)) else p)" by blast
    from ok p have gp: "group_ok hs p" by (simp add: acc_ok_def list_all_iff)
    show "group_ok (hs @ [r]) q"
    proof (cases "fst p = run_key r")
      case True
      with gp have "group_ok hs (run_key r, snd p)" by (metis prod.collapse)
      then have "group_ok (hs @ [r]) (run_key r, push_result r (snd p))"
        by (rule group_ok_push) simp
      with q True show ?thesis by simp
    next
      case False
      with gp q show ?thesis by (simp add: group_ok_other)
    qed
  qed
  moreover have "distinct (map fst acc')" using ok by (simp add: acc' update_own_keys acc_ok_def)
  moreover have "list_all (\<lambda>x. run_key x \<in> set (map fst acc')) (hs @ [r])"
    using ok key by (simp add: acc' update_own_keys acc_ok_def)
  ultimately show ?thesis by (simp add: acc_ok_def)
next
  case None
  with step have np: "run_key r \<notin> set object_prototype_keys"
    and acc': "acc' = acc @ [(run_key r, push_result r (new_group (run_key r) r))]"
    by (auto simp add: reduce_step_cases split: if_splits)
  from None have nk: "run_key r \<notin> set (map fst acc)" by (simp add: map_of_None_iff)
  have empty: "keyed (run_key r) hs = []"
  proof (rule ccontr)
    assume "keyed (run_key r) hs \<noteq> []"
    then obtain x where x: "x \<in> set hs" and xr: "run_key x = run_key r"
      by (auto simp add: keyed_def filter_empty_conv)
    from ok have "\<forall>y \<in> set hs. run_key y \<in> set (map fst acc)"
      by (simp add: acc_ok_def list_all_iff)
    with x have "run_key x \<in> set (map fst acc)" by blast
    with xr nk show False by simp
  qed
  have "list_all (group_ok (hs @ [r])) acc"
    unfolding list_all_iff
  proof
    fix p assume p: "p \<in> set acc"
    with ok have "group_ok hs p" by (simp add: acc_ok_def list_all_iff)
    moreover from p nk have "run_key r \<noteq> fst p" by auto
    ultimately show "group_ok (hs @ [r]) p" by (rule group_ok_other)
  qed
  with group_ok_new [OF empty np] have "list_all (group_ok (hs @ [r])) acc'"
    by (simp add: acc')
  moreover have "distinct (map fst acc')" using ok nk by (simp add: acc' acc_ok_def)
  moreover have "list_all (\<lambda>x. run_key x \<in> set (map fst acc')) (hs @ [r])"
    using ok by (auto simp add: acc' acc_ok_def list_all_iff)
  ultimately show ?thesis by (simp add: acc_ok_def)
qed

lemma group_by_run_ok:
  "acc_ok hs acc \<Longrightarrow> group_by_run acc rest = Inr acc' \<Longrightarrow> acc_ok (hs @ rest) acc'"
proof (induction rest arbitrary: acc hs)
  case Nil
  then show ?case by simp
next
  case (Cons r rest)
  from Cons.prems(2) obtain acc1 where s: "reduce_step acc r = Inr acc1"
    and g: "group_by_run acc1 rest = Inr acc'"
    by (auto split: sum.splits)
  from reduce_step_ok [OF Cons.prems(1) s] have "acc_ok (hs @ [r]) acc1" .
  from Cons.IH [OF this g] show ?case by simp
qed

lemma acc_ok_empty: "acc_ok [] []"
  by (simp add: acc_ok_def)

lemma group_by_run_total:
  "acc_ok hs acc \<Longrightarrow> \<forall>r \<in> set rest. run_key r \<notin> set object_prototype_keys \<Longrightarrow>
     \<exists>acc'. group_by_run acc rest = Inr acc'"
proof (induction rest arbitrary: acc hs)
  case Nil
  then show ?case by simp
next
  case (Cons r rest)
  from Cons.prems(2) have "run_key r \<notin> set object_prototype_keys" by simp
  then have "\<exists>acc1. reduce_step acc r = Inr acc1"
    by (cases "map_of acc (run_key r)") (simp_all add: reduce_step_cases)
  then obtain acc1 where s: "reduce_step acc r = Inr acc1" ..
  from reduce_step_ok [OF Cons.prems(1) s] have "acc_ok (hs @ [r]) acc1" .
  from Cons.IH [OF this] Cons.prems(2) s show ?case by simp
qed

lemma group_by_run_fails:
  "acc_ok hs acc \<Longrightarrow> \<exists>r \<in> set rest. run_key r \<in> set object_prototype_keys \<Longrightarrow>
     group_by_run acc rest = Inl TypeError"
proof (induction rest arbitrary: acc hs)
  case Nil
  then show ?case by simp
next
  case (Cons r rest)
  show ?case
  proof (cases "reduce_step acc r")
    case (Inl e)
    then have "e = TypeError" by (auto simp add: reduce_step_cases split: option.splits if_splits)
    with Inl show ?thesis by simp
  next
    case (Inr acc1)
    from reduce_step_ok [OF Cons.prems(1) Inr] have ok1: "acc_ok (hs @ [r]) acc1" .
    then have "run_key r \<in> set (map fst acc1)" by (simp add: acc_ok_def)
    with ok1 have "run_key r \<notin> set object_prototype_keys"
      by (auto simp add: acc_ok_def list_all_iff group_ok_def)
    with Cons.prems(2) have "\<exists>x \<in> set rest. run_key x \<in> set object_prototype_keys" by auto
    from Cons.IH [OF ok1 this] Inr show ?thesis by simp
  qed
qed

text \<open>
  When no key is an inherited name, the fold returns one group for each key of the
  history, holding the records of that key.
\<close>

lemma group_by_run_groups:
  assumes "\<forall>r \<in> set history. run_key r \<notin> set object_prototype_keys"
  shows "\<exists>acc. group_by_run [] history = Inr acc
           \<and> distinct (map fst acc)
           \<and> set (map fst acc) = run_key ` set history
           \<and> (\<forall>p \<in> set acc. rg_id (snd p) = fst p
                  \<and> rg_results (snd p) = keyed (fst p) history
                  \<and> length (rg_results (snd p))
                      = length (filter (\<lambda>r. run_key r = fst p) history))"
proof -
  from group_by_run_total [OF acc_ok_empty assms] obtain acc
    where acc: "group_by_run [] history = Inr acc" by blast
  from group_by_run_ok [OF acc_ok_empty acc] have ok: "acc_ok history acc" by simp
  have d: "distinct (map fst acc)" using ok by (simp add: acc_ok_def)
  have sub: "run_key ` set history \<subseteq> set (map fst acc)"
    using ok by (auto simp add: acc_ok_def list_all_iff)
  have sup: "set (map fst acc) \<subseteq> run_key ` set history"
  proof
    fix k assume "k \<in> set (map fst acc)"
    then obtain p where p: "p \<in> set acc" and k: "k = fst p" by auto
    from ok p have "keyed (fst p) history \<noteq> []"
      by (simp add: acc_ok_def list_all_iff group_ok_def)
    then obtain r where "r \<in> set history" "run_key r = fst p"
      by (auto simp add: keyed_def filter_empty_conv)
    with k show "k \<in> run_key ` set history" by (metis imageI)
  qed
  have g: "\<forall>p \<in> set acc. rg_id (snd p) = fst p
                  \<and> rg_results (snd p) = keyed (fst p) history
                  \<and> length (rg_results (snd p))
                      = length (filter (\<lambda>r. run_key r = fst p) history)"
    using ok by (simp add: acc_ok_def list_all_iff group_ok_def keyed_def)
  from acc d sub sup g show ?thesis by blast
qed

lemma run_key_legacy:
  "runId r = None \<or> runId r = Some [] \<Longrightarrow> run_key r = ''LEGACY-RUN''"
  by (auto simp add: run_key_def)

text \<open>
  Claim C2. The grouping fold is meant to place every record in exactly one group, under
  its \<^verbatim>\<open>runId\<close> or under "LEGACY-RUN" when it has none, so that a group holds as many
  results as the input has records with its key. The accumulator is a plain object,
  and for a \<^verbatim>\<open>runId\<close> such as "constructor" the read \<^verbatim>\<open>acc[rId]\<close> finds the inherited
  property: no group is created, \<^verbatim>\<open>acc[rId].results\<close> is undefined and the push raises
  a \<^verbatim>\<open>TypeError\<close>, so the record is placed in no group. On every input without such
  a key the fold groups as claimed (\<open>group_by_run_groups\<close>).
\<close>

theorem inherited_run_id_raises:
  "group_by_run [] [inherited_key_record] = Inl TypeError"
  by (simp add: inherited_key_record_def reduce_step_def run_key_def get_property_def
      object_prototype_keys_def Let_def)

section \<open>Wall-clock time\<close>

lemma wall_clock_pass_fields:
  "rg_id (wall_clock_pass gt g) = rg_id g \<and>
   rg_timestamp (wall_clock_pass gt g) = rg_timestamp g \<and>
   rg_results (wall_clock_pass gt g) = rg_results g \<and>
   rg_passed (wall_clock_pass gt g) = rg_passed g \<and>
   rg_failed (wall_clock_pass gt g) = rg_failed g \<and>
   rg_duration (wall_clock_pass gt g) = rg_duration g"
  by (simp add: wall_clock_pass_def Let_def split: list.splits)

lemma wall_clock_pass_time:
  "rg_results g = r # rs \<Longrightarrow>
     rg_wallClockTime (wall_clock_pass gt g)
       = js_sub (math_max (end_ms gt r) (map (end_ms gt) rs))
                (math_min (start_ms gt r) (map (start_ms gt) rs))"
  by (simp add: wall_clock_pass_def Let_def start_ms_def [abs_def] end_ms_def [abs_def])

lemma aggregate_groups:
  assumes "aggregate gt history = Inr runs" and "(k, g) \<in> set runs"
  shows "\<exists>g0. group_ok history (k, g0) \<and> g = wall_clock_pass gt g0"
proof -
  from assms(1) obtain acc where acc: "group_by_run [] history = Inr acc"
    and runs: "runs = map (\<lambda>p. (fst p, wall_clock_pass gt (snd p))) acc"
    by (auto simp add: aggregate_def split: sum.splits)
  from group_by_run_ok [OF acc_ok_empty acc] have ok: "acc_ok history acc" by simp
  from assms(2) runs obtain p where p: "p \<in> set acc" and k: "k = fst p"
    and g: "g = wall_clock_pass gt (snd p)" by auto
  from ok p have "group_ok history p" by (simp add: acc_ok_def list_all_iff)
  with k g show ?thesis by (metis prod.collapse)
qed

lemma aggregate_acc:
  assumes "aggregate gt history = Inr runs"
  shows "\<exists>acc. acc_ok history acc \<and> runs = map (\<lambda>p. (fst p, wall_clock_pass gt (snd p))) acc"
proof -
  from assms obtain acc where acc: "group_by_run [] history = Inr acc"
    and runs: "runs = map (\<lambda>p. (fst p, wall_clock_pass gt (snd p))) acc"
    by (auto simp add: aggregate_def split: sum.splits)
  from group_by_run_ok [OF acc_ok_empty acc] have "acc_ok history acc" by simp
  with runs show ?thesis by blast
qed

lemma foldl_js_min2:
  "foldl js_min2 (Fin a) (map (\<lambda>x. Fin (f x)) xs) = Fin (fold min (map f xs) a)"
  by (induction xs arbitrary: a) (simp_all add: min.commute)

lemma foldl_js_max2:
  "foldl js_max2 (Fin a) (map (\<lambda>x. Fin (f x)) xs) = Fin (fold max (map f xs) a)"
  by (induction xs arbitrary: a) (simp_all add: max.commute)

lemma math_min_Min:
  "math_min (Fin (f r)) (map (\<lambda>x. Fin (f x)) rs) = Fin (Min (f ` set (r # rs)))"
proof -
  have "Min (set (f r # map f rs)) = fold min (map f rs) (f r)"
    by (rule Min.set_eq_fold)
  then show ?thesis by (simp add: math_min_def foldl_js_min2)
qed

lemma math_max_Max:
  "math_max (Fin (f r)) (map (\<lambda>x. Fin (f x)) rs) = Fin (Max (f ` set (r # rs)))"
proof -
  have "Max (set (f r # map f rs)) = fold max (map f rs) (f r)"
    by (rule Max.set_eq_fold)
  then show ?thesis by (simp add: math_max_def foldl_js_max2)
qed

lemma parsed_start:
  "gt (timestamp x) \<noteq> NaN \<Longrightarrow> start_ms gt x = Fin (epoch_ms gt x)"
  by (cases "gt (timestamp x)") (simp_all add: start_ms_def epoch_ms_def)

lemma parsed_end:
  "gt (timestamp x) \<noteq> NaN \<Longrightarrow> end_ms gt x = Fin (epoch_ms gt x + duration x)"
  by (cases "gt (timestamp x)") (simp_all add: end_ms_def epoch_ms_def)

lemma wall_clock_parsed:
  assumes "\<forall>x \<in> set (r # rs). gt (timestamp x) \<noteq> NaN"
  shows "js_sub (math_max (end_ms gt r) (map (end_ms gt) rs))
                (math_min (start_ms gt r) (map (start_ms gt) rs))
         = Fin (Max ((\<lambda>x. epoch_ms gt x + duration x) ` set (r # rs))
                - Min (epoch_ms gt ` set (r # rs)))"
proof -
  have s: "map (start_ms gt) rs = map (\<lambda>x. Fin (epoch_ms gt x)) rs"
    using assms by (intro map_cong refl parsed_start) simp
  have e: "map (end_ms gt) rs = map (\<lambda>x. Fin (epoch_ms gt x + duration x)) rs"
    using assms by (intro map_cong refl parsed_end) simp
  have s0: "start_ms gt r = Fin (epoch_ms gt r)" using assms by (simp add: parsed_start)
  have e0: "end_ms gt r = Fin (epoch_ms gt r + duration r)" using assms by (simp add: parsed_end)
  show ?thesis
    unfolding s e s0 e0
    by (simp only: math_min_Min [of "epoch_ms gt"]
        math_max_Max [of "\<lambda>x. epoch_ms gt x + duration x"] js_sub.simps)
qed

lemma span_covers_duration:
  fixes t d :: "'a \<Rightarrow> int"
  assumes "finite A" and "x \<in> A"
  shows "d x \<le> Max ((\<lambda>y. t y + d y) ` A) - Min (t ` A)"
proof -
  have "t x + d x \<le> Max ((\<lambda>y. t y + d y) ` A)" using assms by (intro Max_ge) auto
  moreover have "Min (t ` A) \<le> t x" using assms by (intro Min_le) auto
  ultimately show ?thesis by linarith
qed

text \<open>
  Claim C1. For every group that the aggregation produces, the group has at least one
  record and \<open>wallClockTime\<close> is the latest end (parsed timestamp plus duration) minus
  the earliest parsed timestamp, computed with \<^verbatim>\<open>Math.max\<close> and \<^verbatim>\<open>Math.min\<close>. When every
  timestamp of the group parses, this is the maximum of the ends minus the minimum of
  the starts, a number that is at least the duration of each record of the group.
\<close>

theorem wall_clock_time:
  assumes "aggregate getTime history = Inr runs" and "(k, g) \<in> set runs"
  shows "(\<exists>r rs. rg_results g = r # rs
            \<and> rg_wallClockTime g
                = js_sub (math_max (end_ms getTime r) (map (end_ms getTime) rs))
                         (math_min (start_ms getTime r) (map (start_ms getTime) rs)))
       \<and> ((\<forall>x \<in> set (rg_results g). getTime (timestamp x) \<noteq> NaN) \<longrightarrow>
            rg_wallClockTime g
              = Fin (Max ((\<lambda>x. epoch_ms getTime x + duration x) ` set (rg_results g))
                     - Min (epoch_ms getTime ` set (rg_results g)))
          \<and> (\<exists>w. rg_wallClockTime g = Fin w \<and> (\<forall>x \<in> set (rg_results g). duration x \<le> w)))"
proof -
  from aggregate_groups [OF assms] obtain g0 where ok: "group_ok history (k, g0)"
    and g: "g = wall_clock_pass getTime g0" by blast
  from ok have "rg_results g0 \<noteq> []" by (simp add: group_ok_def)
  then obtain r rs where rs: "rg_results g0 = r # rs" by (cases "rg_results g0") auto
  have res: "rg_results g = r # rs" by (simp add: g wall_clock_pass_fields rs)
  have wc: "rg_wallClockTime g
                = js_sub (math_max (end_ms getTime r) (map (end_ms getTime) rs))
                         (math_min (start_ms getTime r) (map (start_ms getTime) rs))"
    unfolding g by (rule wall_clock_pass_time [OF rs])
  have parsed: "rg_wallClockTime g
              = Fin (Max ((\<lambda>x. epoch_ms getTime x + duration x) ` set (rg_results g))
                     - Min (epoch_ms getTime ` set (rg_results g)))
          \<and> (\<exists>w. rg_wallClockTime g = Fin w \<and> (\<forall>x \<in> set (rg_results g). duration x \<le> w))"
    if all: "\<forall>x \<in> set (rg_results g). getTime (timestamp x) \<noteq> NaN"
  proof -
    from all res have "\<forall>x \<in> set (r # rs). getTime (timestamp x) \<noteq> NaN" by simp
    from wall_clock_parsed [OF this] wc res
    have eq: "rg_wallClockTime g
              = Fin (Max ((\<lambda>x. epoch_ms getTime x + duration x) ` set (rg_results g))
                     - Min (epoch_ms getTime ` set (rg_results g)))" by simp
    have "\<forall>x \<in> set (rg_results g). duration x
             \<le> Max ((\<lambda>x. epoch_ms getTime x + duration x) ` set (rg_results g))
                     - Min (epoch_ms getTime ` set (rg_results g))"
      by (intro ballI span_covers_duration) simp_all
    with eq show ?thesis by blast
  qed
  from res wc parsed show ?thesis by blast
qed

lemma scenario_a_aggregate:
  "aggregate sample_clock scenario_a = Inr [(''RUN-1'', scenario_a_group)]"
  by (simp add: aggregate_def scenario_a_def scenario_a_group_def reduce_step_def run_key_def
      get_property_def object_prototype_keys_def new_group_def update_own_def push_result_def
      wall_clock_pass_def mode_tag_def math_min_def math_max_def sample_clock_def Let_def)

theorem wall_clock_time_witness:
  "aggregate sample_clock scenario_a = Inr [(''RUN-1'', scenario_a_group)]
   \<and> rg_wallClockTime scenario_a_group = Fin 2200
   \<and> (\<exists>w. rg_wallClockTime scenario_a_group = Fin w
          \<and> (\<forall>x \<in> set (rg_results scenario_a_group). duration x \<le> w))"
proof -
  have m: "(''RUN-1'', scenario_a_group) \<in> set [(''RUN-1'', scenario_a_group)]" by simp
  have p: "\<forall>x \<in> set (rg_results scenario_a_group). sample_clock (timestamp x) \<noteq> NaN"
    by (simp add: scenario_a_group_def scenario_a_def sample_clock_def)
  from wall_clock_time [OF scenario_a_aggregate m] p
  have "\<exists>w. rg_wallClockTime scenario_a_group = Fin w
          \<and> (\<forall>x \<in> set (rg_results scenario_a_group). duration x \<le> w)" by blast
  moreover have "rg_wallClockTime scenario_a_group = Fin 2200"
    by (simp add: scenario_a_group_def)
  ultimately show ?thesis using scenario_a_aggregate by blast
qed

section \<open>Classification and partition of the runs\<close>

lemma classify_tag_not_unknown: "classify_tag t \<noteq> Unknown"
  by (simp add: classify_tag_def)


lemma split_step_class:
  "split_step (ps, ss) run =
     (if run_class run = Sequential then (ps, ss @ [run]) else (ps @ [run], ss))"
  by (simp add: split_step_def run_class_def classify_tag_def Let_def)

lemma foldl_split_step:
  "foldl split_step (ps, ss) xs =
     (ps @ filter (\<lambda>g. run_class g \<noteq> Sequential) xs, ss @ filter (\<lambda>g. run_class g = Sequential) xs)"
  by (induction xs arbitrary: ps ss) (simp_all add: split_step_class)


lemma split_runs_eq:
  "split_runs runs =
     (filter (\<lambda>g. run_class g \<noteq> Sequential) (object_values runs),
      filter (\<lambda>g. run_class g = Sequential) (object_values runs))"
  by (simp add: split_runs_def foldl_split_step)



lemma mixed_sample_aggregate: "aggregate sample_clock mixed_sample = Inr mixed_runs"
  by (simp add: aggregate_def mixed_sample_def mixed_runs_def reduce_step_def run_key_def
      get_property_def object_prototype_keys_def new_group_def update_own_def push_result_def
      wall_clock_pass_def mode_tag_def math_min_def math_max_def sample_clock_def Let_def)

lemma mixed_runs_values: "object_values mixed_runs = map snd mixed_runs"
  by (simp add: object_values_def mixed_runs_def array_index_def is_digit_def)

lemma mixed_runs_metrics: "calculateExecutionModeMetrics mixed_runs = mixed_metrics"
  unfolding calculateExecutionModeMetrics_def split_runs_def mixed_runs_values
  by (simp add: mixed_runs_def mixed_sample_def mixed_metrics_def split_step_def mode_tag_def
      calcMetrics_def count_run_def count_test_def math_round_def floor_numeral_quotient Let_def
      percent_1_of_2)



section \<open>Pass, fail and skip counts\<close>

lemma foldl_count_test:
  "totalTests (foldl count_test t rs) = totalTests t + length rs \<and>
   totalDuration (foldl count_test t rs) = totalDuration t + total_duration rs \<and>
   passed (foldl count_test t rs) = passed t + count_passed rs \<and>
   skipped (foldl count_test t rs) = skipped t + count_skipped rs \<and>
   failed (foldl count_test t rs) = failed t + count_failed rs \<and>
   totalWallClockTime (foldl count_test t rs) = totalWallClockTime t"
proof (induction rs arbitrary: t)
  case Nil
  show ?case
    by (simp add: total_duration_def count_passed_def count_skipped_def count_failed_def)
next
  case (Cons r rs)
  show ?case
    by (simp add: Cons [of "count_test t r"])
       (simp add: count_test_def Let_def total_duration_def count_passed_def
          count_skipped_def count_failed_def)
qed

lemma tests_of_Cons: "tests_of (run # runs) = rg_results run @ tests_of runs"
  by (simp add: tests_of_def)

lemma counts_append:
  "count_passed (xs @ ys) = count_passed xs + count_passed ys"
  "count_skipped (xs @ ys) = count_skipped xs + count_skipped ys"
  "count_failed (xs @ ys) = count_failed xs + count_failed ys"
  "total_duration (xs @ ys) = total_duration xs + total_duration ys"
  by (simp_all add: count_passed_def count_skipped_def count_failed_def total_duration_def)

lemma foldl_count_run:
  "totalTests (foldl count_run t runs) = totalTests t + length (tests_of runs) \<and>
   totalDuration (foldl count_run t runs) = totalDuration t + total_duration (tests_of runs) \<and>
   passed (foldl count_run t runs) = passed t + count_passed (tests_of runs) \<and>
   skipped (foldl count_run t runs) = skipped t + count_skipped (tests_of runs) \<and>
   failed (foldl count_run t runs) = failed t + count_failed (tests_of runs)"
proof (induction runs arbitrary: t)
  case Nil
  show ?case
    by (simp add: tests_of_def total_duration_def count_passed_def count_skipped_def
        count_failed_def)
next
  case (Cons run runs)
  show ?case
    by (simp add: Cons [of "count_run t run"] tests_of_Cons counts_append)
       (simp add: count_run_def foldl_count_test)
qed

lemma three_way_split:
  "count_passed rs + count_failed rs + count_skipped rs = length rs"
  by (induction rs) (simp_all add: count_passed_def count_failed_def count_skipped_def)

lemma calcMetrics_counts:
  "em_totalTests (calcMetrics runList mode) = length (tests_of runList) \<and>
   em_passed (calcMetrics runList mode) = count_passed (tests_of runList) \<and>
   em_skipped (calcMetrics runList mode) = count_skipped (tests_of runList) \<and>
   em_failed (calcMetrics runList mode) = count_failed (tests_of runList)"
proof (cases "runList = []")
  case True
  then show ?thesis
    by (simp add: calcMetrics_def tests_of_def count_passed_def count_skipped_def
        count_failed_def)
next
  case False
  then show ?thesis
    by (simp add: calcMetrics_def Let_def foldl_count_run)
qed

lemma sum_list_insort_key:
  fixes f :: "'a \<Rightarrow> nat"
  shows "sum_list (map f (insort_key k x xs)) = f x + sum_list (map f xs)"
  by (induction xs) simp_all

lemma sum_list_sort_key:
  fixes f :: "'a \<Rightarrow> nat"
  shows "sum_list (map f (sort_key k xs)) = sum_list (map f xs)"
  by (induction xs) (simp_all add: sum_list_insort_key)

lemma sum_list_filter_split:
  fixes f :: "'a \<Rightarrow> nat"
  shows "sum_list (map f (filter P xs)) + sum_list (map f (filter (\<lambda>x. \<not> P x) xs))
         = sum_list (map f xs)"
  by (induction xs) simp_all

lemma length_tests_of: "length (tests_of runs) = sum_list (map (\<lambda>g. length (rg_results g)) runs)"
  by (induction runs) (simp_all add: tests_of_def)

lemma sum_object_values:
  fixes f :: "'v \<Rightarrow> nat"
  shows "sum_list (map f (object_values obj)) = sum_list (map (\<lambda>p. f (snd p)) obj)"
proof -
  have "sum_list (map f (object_values obj))
        = sum_list (map (\<lambda>p. f (snd p)) (filter (\<lambda>p. array_index (fst p) \<noteq> None) obj))
          + sum_list (map (\<lambda>p. f (snd p)) (filter (\<lambda>p. \<not> array_index (fst p) \<noteq> None) obj))"
    by (simp add: object_values_def comp_def sum_list_sort_key)
  then show ?thesis by (simp only: sum_list_filter_split)
qed

lemma sum_list_indicator:
  "distinct ks \<Longrightarrow> a \<in> set ks \<Longrightarrow> sum_list (map (\<lambda>k. if a = k then 1 else 0) ks) = (1::nat)"
proof (induction ks)
  case Nil
  then show ?case by simp
next
  case (Cons k ks)
  show ?case
  proof (cases "a = k")
    case True
    with Cons.prems have "a \<notin> set ks" by simp
    then have "sum_list (map (\<lambda>k. if a = k then 1 else 0) ks) = (0::nat)"
      by (induction ks) auto
    with True show ?thesis by simp
  next
    case False
    with Cons show ?thesis by simp
  qed
qed

lemma keyed_cover:
  "distinct ks \<Longrightarrow> \<forall>r \<in> set hs. run_key r \<in> set ks \<Longrightarrow>
     sum_list (map (\<lambda>k. length (keyed k hs)) ks) = length hs"
proof (induction hs)
  case Nil
  show ?case by (simp add: keyed_def)
next
  case (Cons r hs)
  have "sum_list (map (\<lambda>k. length (keyed k (r # hs))) ks)
        = sum_list (map (\<lambda>k. (if run_key r = k then 1 else 0) + length (keyed k hs)) ks)"
    by (intro arg_cong [where f = sum_list] map_cong refl) (simp add: keyed_def)
  also have "\<dots> = sum_list (map (\<lambda>k. if run_key r = k then 1 else 0) ks)
                  + sum_list (map (\<lambda>k. length (keyed k hs)) ks)"
    by (simp add: sum_list_addf)
  also have "\<dots> = 1 + length hs"
    using Cons by (simp add: sum_list_indicator)
  finally show ?case by simp
qed

lemma aggregate_covers_history:
  assumes "aggregate gt history = Inr runs"
  shows "sum_list (map (\<lambda>p. length (rg_results (snd p))) runs) = length history"
proof -
  from aggregate_acc [OF assms] obtain acc where ok: "acc_ok history acc"
    and runs: "runs = map (\<lambda>p. (fst p, wall_clock_pass gt (snd p))) acc" by blast
  have "sum_list (map (\<lambda>p. length (rg_results (snd p))) runs)
        = sum_list (map (\<lambda>p. length (rg_results (snd p))) acc)"
    by (simp add: runs comp_def wall_clock_pass_fields)
  also have "\<dots> = sum_list (map (\<lambda>p. length (keyed (fst p) history)) acc)"
    using ok by (intro arg_cong [where f = sum_list] map_cong refl)
      (simp add: acc_ok_def list_all_iff group_ok_def)
  also have "\<dots> = sum_list (map (\<lambda>k. length (keyed k history)) (map fst acc))"
    by (simp add: comp_def)
  also have "\<dots> = length history"
    using ok by (intro keyed_cover) (simp_all add: acc_ok_def list_all_iff)
  finally show ?thesis .
qed

lemma mode_metrics_cover:
  "em_totalTests (parallel (calculateExecutionModeMetrics runs))
     + em_totalTests (sequential (calculateExecutionModeMetrics runs))
   = sum_list (map (\<lambda>p. length (rg_results (snd p))) runs)"
proof -
  let ?f = "\<lambda>g. length (rg_results g)"
  let ?P = "\<lambda>g. run_class g = Sequential"
  have "em_totalTests (parallel (calculateExecutionModeMetrics runs))
          + em_totalTests (sequential (calculateExecutionModeMetrics runs))
        = sum_list (map ?f (filter (\<lambda>g. \<not> ?P g) (object_values runs)))
          + sum_list (map ?f (filter ?P (object_values runs)))"
    by (simp add: calculateExecutionModeMetrics_def split_runs_eq calcMetrics_counts length_tests_of)
  also have "\<dots> = sum_list (map ?f (object_values runs))"
    using sum_list_filter_split [of ?f ?P "object_values runs"] by simp
  finally show ?thesis by (simp add: sum_object_values)
qed

text \<open>
  Claim C3. At group accumulation a record with status passed increments the group's
  \<open>passed\<close> and any other status, skipped included, increments its \<open>failed\<close>, so that
  \<open>passed + failed\<close> is the number of results of the group. The execution-mode metrics
  count the records of a partition three ways: passed, skipped, and every other status
  as failed, so that \<open>passed + failed + skipped = totalTests\<close>; the two partitions
  together count every record of the history once.
\<close>

theorem pass_fail_counting:
  "(aggregate getTime history = Inr runs \<longrightarrow>
      (\<forall>p \<in> set runs.
          rg_passed (snd p) = count_passed (rg_results (snd p))
        \<and> rg_failed (snd p) = count_not_passed (rg_results (snd p))
        \<and> rg_passed (snd p) + rg_failed (snd p) = length (rg_results (snd p)))
      \<and> em_totalTests (parallel (calculateExecutionModeMetrics runs))
          + em_totalTests (sequential (calculateExecutionModeMetrics runs)) = length history)
   \<and> em_totalTests (calcMetrics runList mode) = length (tests_of runList)
   \<and> em_passed (calcMetrics runList mode) = count_passed (tests_of runList)
   \<and> em_skipped (calcMetrics runList mode) = count_skipped (tests_of runList)
   \<and> em_failed (calcMetrics runList mode) = count_failed (tests_of runList)
   \<and> em_passed (calcMetrics runList mode) + em_failed (calcMetrics runList mode)
        + em_skipped (calcMetrics runList mode) = em_totalTests (calcMetrics runList mode)
   \<and> em_passed (parallel (calculateExecutionModeMetrics runs))
        + em_failed (parallel (calculateExecutionModeMetrics runs))
        + em_skipped (parallel (calculateExecutionModeMetrics runs))
      = em_totalTests (parallel (calculateExecutionModeMetrics runs))
   \<and> em_passed (sequential (calculateExecutionModeMetrics runs))
        + em_failed (sequential (calculateExecutionModeMetrics runs))
        + em_skipped (sequential (calculateExecutionModeMetrics runs))
      = em_totalTests (sequential (calculateExecutionModeMetrics runs))"
proof -
  have groups: "\<forall>p \<in> set runs.
          rg_passed (snd p) = count_passed (rg_results (snd p))
        \<and> rg_failed (snd p) = count_not_passed (rg_results (snd p))
        \<and> rg_passed (snd p) + rg_failed (snd p) = length (rg_results (snd p))"
    if agg: "aggregate getTime history = Inr runs"
  proof
    fix p assume p: "p \<in> set runs"
    then have "(fst p, snd p) \<in> set runs" by simp
    from aggregate_groups [OF agg this] obtain g0 where ok: "group_ok history (fst p, g0)"
      and g: "snd p = wall_clock_pass getTime g0" by blast
    have "count_passed (rg_results g0) + count_not_passed (rg_results g0) = length (rg_results g0)"
      by (simp add: count_passed_def count_not_passed_def sum_length_filter_compl)
    with ok show "rg_passed (snd p) = count_passed (rg_results (snd p))
        \<and> rg_failed (snd p) = count_not_passed (rg_results (snd p))
        \<and> rg_passed (snd p) + rg_failed (snd p) = length (rg_results (snd p))"
      by (simp add: g wall_clock_pass_fields group_ok_def)
  qed
  have cover: "em_totalTests (parallel (calculateExecutionModeMetrics runs))
          + em_totalTests (sequential (calculateExecutionModeMetrics runs)) = length history"
    if agg: "aggregate getTime history = Inr runs"
    using aggregate_covers_history [OF agg] by (simp add: mode_metrics_cover)
  have any: "em_passed (calcMetrics l m) + em_failed (calcMetrics l m)
        + em_skipped (calcMetrics l m) = em_totalTests (calcMetrics l m)" for l m
    by (simp add: calcMetrics_counts three_way_split)
  have par: "parallel (calculateExecutionModeMetrics runs)
               = calcMetrics (fst (split_runs runs)) ''Parallel''"
    and seq: "sequential (calculateExecutionModeMetrics runs)
               = calcMetrics (snd (split_runs runs)) ''Sequential''"
    by (simp_all add: calculateExecutionModeMetrics_def split: prod.splits)
  show ?thesis
    using groups cover any [of runList mode] calcMetrics_counts [of runList mode]
    unfolding par seq
    using any [of "fst (split_runs runs)" "''Parallel''"]
      any [of "snd (split_runs runs)" "''Sequential''"]
    by blast
qed

theorem pass_fail_counting_witness:
  "aggregate sample_clock mixed_sample = Inr mixed_runs
   \<and> map (\<lambda>p. (rg_passed (snd p), rg_failed (snd p), length (rg_results (snd p)))) mixed_runs
       = [(1, 1, 2), (0, 1, 1), (1, 0, 1)]
   \<and> em_totalTests (parallel (calculateExecutionModeMetrics mixed_runs))
       + em_totalTests (sequential (calculateExecutionModeMetrics mixed_runs))
       = length mixed_sample
   \<and> em_skipped (sequential (calculateExecutionModeMetrics mixed_runs)) = 1"
proof -
  from pass_fail_counting [of sample_clock mixed_sample mixed_runs] mixed_sample_aggregate
  have "em_totalTests (parallel (calculateExecutionModeMetrics mixed_runs))
       + em_totalTests (sequential (calculateExecutionModeMetrics mixed_runs))
       = length mixed_sample" by blast
  moreover have "map (\<lambda>p. (rg_passed (snd p), rg_failed (snd p), length (rg_results (snd p)))) mixed_runs
       = [(1, 1, 2), (0, 1, 1), (1, 0, 1)]"
    by (simp add: mixed_runs_def mixed_sample_def)
  moreover have "em_skipped (sequential (calculateExecutionModeMetrics mixed_runs)) = 1"
    by (simp add: mixed_runs_metrics mixed_metrics_def)
  ultimately show ?thesis using mixed_sample_aggregate by blast
qed

section \<open>The speedup cell\<close>

lemma calcMetrics_empty:
  "calcMetrics [] mode =
     \<lparr>em_mode = mode, em_totalRuns = 0, em_totalTests = 0, em_avgDuration = 0,
      em_avgRunTime = Fin 0, em_passRate = 0, em_passed = 0, em_failed = 0, em_skipped = 0\<rparr>"
  by (simp add: calcMetrics_def)

lemma js_gt_zero_div:
  "js_gt_zero a \<Longrightarrow> js_gt_zero b \<Longrightarrow> \<exists>q. 0 < q \<and> js_div a b = Quot q"
  by (cases a; cases b) simp_all

text \<open>
  Claim C7. The speedup \<open>sequential.avgRunTime / parallel.avgRunTime\<close> is shown only when
  both averages are nonzero. Whenever either average is zero the cell is the placeholder
  "-"; an empty partition yields all-zero metrics, so it gives the placeholder too.
  A ratio that is shown is a positive finite quotient: never a division by zero, never
  \<open>Infinity\<close>, never \<open>NaN\<close>.
\<close>

theorem speedup_placeholder:
  "((em_avgRunTime (parallel m) = Fin 0 \<or> em_avgRunTime (sequential m) = Fin 0) \<longrightarrow>
      speedup_cell toFixed1 m = ''-'')
   \<and> (speedup_cell toFixed1 m \<noteq> ''-'' \<longrightarrow>
        em_avgRunTime (parallel m) \<noteq> Fin 0 \<and> em_avgRunTime (sequential m) \<noteq> Fin 0
      \<and> (\<exists>q. 0 < q
            \<and> js_div (em_avgRunTime (sequential m)) (em_avgRunTime (parallel m)) = Quot q
            \<and> speedup_cell toFixed1 m = toFixed1 (Quot q) @ ''x''))
   \<and> calcMetrics [] mode =
        \<lparr>em_mode = mode, em_totalRuns = 0, em_totalTests = 0, em_avgDuration = 0,
         em_avgRunTime = Fin 0, em_passRate = 0, em_passed = 0, em_failed = 0,
         em_skipped = 0\<rparr>
   \<and> ((fst (split_runs runs) = [] \<or> snd (split_runs runs) = []) \<longrightarrow>
        speedup_cell toFixed1 (calculateExecutionModeMetrics runs) = ''-'')"
proof -
  have zero: "speedup_cell toFixed1 m = ''-''"
    if "em_avgRunTime (parallel m) = Fin 0 \<or> em_avgRunTime (sequential m) = Fin 0"
    using that by (auto simp add: speedup_cell_def)
  have shown: "em_avgRunTime (parallel m) \<noteq> Fin 0 \<and> em_avgRunTime (sequential m) \<noteq> Fin 0
      \<and> (\<exists>q. 0 < q
            \<and> js_div (em_avgRunTime (sequential m)) (em_avgRunTime (parallel m)) = Quot q
            \<and> speedup_cell toFixed1 m = toFixed1 (Quot q) @ ''x'')"
    if ne: "speedup_cell toFixed1 m \<noteq> ''-''"
  proof -
    from ne have p: "js_gt_zero (em_avgRunTime (parallel m))"
      and s: "js_gt_zero (em_avgRunTime (sequential m))"
      by (auto simp add: speedup_cell_def split: if_splits)
    from js_gt_zero_div [OF s p] obtain q where "0 < q"
      and "js_div (em_avgRunTime (sequential m)) (em_avgRunTime (parallel m)) = Quot q" by blast
    moreover from p s have "speedup_cell toFixed1 m
        = toFixed1 (js_div (em_avgRunTime (sequential m)) (em_avgRunTime (parallel m))) @ ''x''"
      by (simp add: speedup_cell_def)
    moreover from p have "em_avgRunTime (parallel m) \<noteq> Fin 0" by auto
    moreover from s have "em_avgRunTime (sequential m) \<noteq> Fin 0" by auto
    ultimately show ?thesis by auto
  qed
  have empty: "speedup_cell toFixed1 (calculateExecutionModeMetrics runs) = ''-''"
    if "fst (split_runs runs) = [] \<or> snd (split_runs runs) = []"
    using that
    by (cases "split_runs runs")
       (auto simp add: calculateExecutionModeMetrics_def calcMetrics_empty speedup_cell_def)
  have z: "(em_avgRunTime (parallel m) = Fin 0 \<or> em_avgRunTime (sequential m) = Fin 0) \<longrightarrow>
      speedup_cell toFixed1 m = ''-''"
    by (rule impI) (rule zero)
  have s: "speedup_cell toFixed1 m \<noteq> ''-'' \<longrightarrow>
        em_avgRunTime (parallel m) \<noteq> Fin 0 \<and> em_avgRunTime (sequential m) \<noteq> Fin 0
      \<and> (\<exists>q. 0 < q
            \<and> js_div (em_avgRunTime (sequential m)) (em_avgRunTime (parallel m)) = Quot q
            \<and> speedup_cell toFixed1 m = toFixed1 (Quot q) @ ''x'')"
    by (rule impI) (rule shown)
  have e: "(fst (split_runs runs) = [] \<or> snd (split_runs runs) = []) \<longrightarrow>
        speedup_cell toFixed1 (calculateExecutionModeMetrics runs) = ''-''"
    by (rule impI) (rule empty)
  show ?thesis by (rule conjI [OF z conjI [OF s conjI [OF calcMetrics_empty e]]])
qed

lemma scenario_a_values: "object_values [(''RUN-1'', scenario_a_group)] = [scenario_a_group]"
  by (simp add: object_values_def array_index_def is_digit_def)

theorem speedup_placeholder_witness:
  "snd (split_runs [(''RUN-1'', scenario_a_group)]) = []
   \<and> speedup_cell sample_toFixed1 (calculateExecutionModeMetrics [(''RUN-1'', scenario_a_group)]) = ''-''
   \<and> speedup_cell sample_toFixed1 (calculateExecutionModeMetrics mixed_runs) = ''8.0x''"
proof -
  have e: "snd (split_runs [(''RUN-1'', scenario_a_group)]) = []"
    unfolding split_runs_def scenario_a_values
    by (simp add: scenario_a_group_def scenario_a_def split_step_def mode_tag_def Let_def)
  with speedup_placeholder [of mixed_metrics sample_toFixed1 "''Parallel''" "[(''RUN-1'', scenario_a_group)]"]
  have "speedup_cell sample_toFixed1 (calculateExecutionModeMetrics [(''RUN-1'', scenario_a_group)]) = ''-''"
    by blast
  moreover have "speedup_cell sample_toFixed1 (calculateExecutionModeMetrics mixed_runs) = ''8.0x''"
    by (simp add: mixed_runs_metrics speedup_cell_def mixed_metrics_def sample_toFixed1_def)
  ultimately show ?thesis using e by blast
qed

section \<open>Missing and corrupt history files\<close>

text \<open>
  Claim C8. When the history file does not exist, the report generator prints a warning
  and returns; when the text of the file does not parse as JSON, it prints an error and
  returns. In both cases no exception escapes, and the files are as they were: no report
  is written.
\<close>

theorem generateReport_without_history:
  "(history_file d = Missing \<longrightarrow>
      generateReport getTime json_parse template d
        = Inr (d\<lparr>console := console d @ [Warn ''No history found. Run tests first.'']\<rparr>))
   \<and> (history_file d = Content rawData \<and> json_parse rawData = SyntaxError \<longrightarrow>
      generateReport getTime json_parse template d
        = Inr (d\<lparr>console := console d @ [Err ''Error parsing history file'']\<rparr>))
   \<and> (history_file d = Missing
        \<or> (history_file d = Content rawData \<and> json_parse rawData = SyntaxError) \<longrightarrow>
      (\<exists>d'. generateReport getTime json_parse template d = Inr d'
          \<and> report_file d' = report_file d \<and> history_file d' = history_file d))"
  by (auto simp add: generateReport_def existsSync_def readFileSync_def print_line_def)

theorem generateReport_without_history_witness:
  "generateReport sample_clock sample_parse sample_template (sample_disk Missing)
     = Inr \<lparr>history_file = Missing, report_file = Missing, write_fails = False,
            console = [Warn ''No history found. Run tests first.'']\<rparr>
   \<and> generateReport sample_clock sample_parse sample_template (sample_disk (Content ''[{''))
     = Inr \<lparr>history_file = Content ''[{'', report_file = Missing, write_fails = False,
            console = [Err ''Error parsing history file'']\<rparr>"
proof -
  have a: "history_file (sample_disk Missing) = Missing" by (simp add: sample_disk_def)
  have b: "history_file (sample_disk (Content ''[{'')) = Content ''[{''
           \<and> sample_parse ''[{'' = SyntaxError"
    by (simp add: sample_disk_def sample_parse_def)
  from generateReport_without_history [where d = "sample_disk Missing" and json_parse = sample_parse
      and getTime = sample_clock and template = sample_template] a
  have "generateReport sample_clock sample_parse sample_template (sample_disk Missing)
        = Inr ((sample_disk Missing)\<lparr>console := console (sample_disk Missing)
                 @ [Warn ''No history found. Run tests first.'']\<rparr>)" by blast
  moreover
  from generateReport_without_history [where d = "sample_disk (Content ''[{'')"
      and rawData = "''[{''" and json_parse = sample_parse and getTime = sample_clock
      and template = sample_template] b
  have "generateReport sample_clock sample_parse sample_template (sample_disk (Content ''[{''))
        = Inr ((sample_disk (Content ''[{''))\<lparr>console := console (sample_disk (Content ''[{''))
                 @ [Err ''Error parsing history file'']\<rparr>)" by blast
  ultimately show ?thesis by (simp add: sample_disk_def)
qed




section \<open>The polling wait\<close>

lemma flicker_run:
  "poll_count flicker 200 100 50 0 0 0 0 = Some 0"
  apply (subst poll_count.simps)
  apply (simp add: flicker_def Let_def)
  apply (subst poll_count.simps)
  apply (simp add: flicker_def Let_def)
  apply (subst poll_count.simps)
  apply (simp add: flicker_def Let_def)
  apply (subst poll_count.simps)
  apply (simp add: flicker_def Let_def)
  apply (subst poll_count.simps)
  apply (simp add: flicker_def Let_def)
  done

text \<open>
  On a page whose count changes between any two polls, no quiet period is ever seen.
  After the timeout of 200 ms the wait resolves, with the count of the last poll.
\<close>

theorem waitForStableCount_timeout_counterexample:
  "waitForStableCount flicker flicker_options 0 = Some (Resolved 0)
   \<and> flicker 0 \<noteq> flicker 50 \<and> flicker 50 \<noteq> flicker 100 \<and> flicker 100 \<noteq> flicker 150
   \<and> flicker 150 \<noteq> flicker 200
   \<and> timeout_of flicker_options = 200 \<and> stabilityThreshold_of flicker_options = 100"
  by (simp add: waitForStableCount_def timeout_of_def stabilityThreshold_of_def
      pollInterval_of_def flicker_options_def flicker_run flicker_def)

lemma poll_time_Suc: "poll_time start p (Suc k) = poll_time start p k + p"
  by (simp add: poll_time_def algebra_simps)

lemma poll_time_mono: "0 < p \<Longrightarrow> j \<le> k \<Longrightarrow> poll_time start p j \<le> poll_time start p k"
  by (simp add: poll_time_def mult_right_mono)

lemma poll_count_settles:
  assumes poll: "0 < p"
  shows "now = poll_time start p k \<Longrightarrow> lastCount = count_at (poll_time start p k) \<Longrightarrow>
     j \<le> k \<Longrightarrow> stableStart = poll_time start p j \<Longrightarrow>
     \<forall>i \<in> {j..k}. count_at (poll_time start p i) = lastCount \<Longrightarrow>
     j = 0 \<or> count_at (poll_time start p (j - 1)) \<noteq> lastCount \<Longrightarrow>
     \<forall>k' < k. \<not> settles_at count_at start p timeout threshold k' \<Longrightarrow>
     \<exists>n. poll_count count_at timeout threshold p start lastCount stableStart now
            = Some (count_at (poll_time start p n))
         \<and> settles_at count_at start p timeout threshold n
         \<and> (\<forall>k' < n. \<not> settles_at count_at start p timeout threshold k')"
proof (induction "nat (start + timeout - now)" arbitrary: now k j lastCount stableStart
    rule: less_induct)
  case less
  note now = less.prems(1) and last = less.prems(2) and jk = less.prems(3)
    and ss = less.prems(4) and run = less.prems(5) and first = less.prems(6)
    and before = less.prems(7)
  show ?case
  proof (cases "now - start < timeout")
    case False
    then have "poll_count count_at timeout threshold p start lastCount stableStart now
        = Some lastCount"
      by (subst poll_count.simps) simp
    moreover from False now have "settles_at count_at start p timeout threshold k"
      by (simp add: settles_at_def)
    ultimately show ?thesis using last before by blast
  next
    case True
    let ?now1 = "now + p"
    have m: "max 0 p = p" using poll by simp
    have dec: "nat (start + timeout - ?now1) < nat (start + timeout - now)"
      using True poll by simp
    have now1: "?now1 = poll_time start p (Suc k)" by (simp add: now poll_time_Suc)
    have not_timed: "\<not> timeout \<le> poll_time start p k - start" using True now by simp
    show ?thesis
    proof (cases "count_at ?now1 \<noteq> lastCount")
      case changed: True
      have step: "poll_count count_at timeout threshold p start lastCount stableStart now
            = poll_count count_at timeout threshold p start (count_at ?now1) ?now1 ?now1"
        using True changed by (subst poll_count.simps) (simp add: m Let_def)
      have "\<not> quiet_poll count_at start p threshold (Suc k)"
      proof
        assume "quiet_poll count_at start p threshold (Suc k)"
        then obtain j' where j': "j' < Suc k"
          and all: "\<forall>i \<in> {j'..Suc k}. count_at (poll_time start p i)
                      = count_at (poll_time start p (Suc k))"
          unfolding quiet_poll_def by blast
        from j' have "k \<in> {j'..Suc k}" by simp
        with all have "count_at (poll_time start p k) = count_at (poll_time start p (Suc k))"
          by blast
        with changed last now1 show False by metis
      qed
      with not_timed have nk: "\<not> settles_at count_at start p timeout threshold k"
        by (simp add: settles_at_def)
      have before': "\<forall>k' < Suc k. \<not> settles_at count_at start p timeout threshold k'"
        using before nk by (simp add: less_Suc_eq)
      have "\<exists>n. poll_count count_at timeout threshold p start (count_at ?now1) ?now1 ?now1
            = Some (count_at (poll_time start p n))
         \<and> settles_at count_at start p timeout threshold n
         \<and> (\<forall>k' < n. \<not> settles_at count_at start p timeout threshold k')"
      proof (rule less.hyps [OF dec now1 _ _ now1 _ _ before'])
        show "count_at ?now1 = count_at (poll_time start p (Suc k))" by (simp add: now1)
        show "Suc k \<le> Suc k" by simp
        show "\<forall>i \<in> {Suc k..Suc k}. count_at (poll_time start p i) = count_at ?now1"
          by (simp add: now1)
        show "Suc k = 0 \<or> count_at (poll_time start p (Suc k - 1)) \<noteq> count_at ?now1"
          using changed last by simp
      qed
      then show ?thesis by (simp only: step)
    next
      case same: False
      then have same': "count_at (poll_time start p (Suc k)) = lastCount" by (simp add: now1)
      have run': "\<forall>i \<in> {j..Suc k}. count_at (poll_time start p i) = lastCount"
      proof
        fix i assume "i \<in> {j..Suc k}"
        then consider "i \<in> {j..k}" | "i = Suc k" by (auto simp add: le_Suc_eq)
        then show "count_at (poll_time start p i) = lastCount"
        proof cases
          case 1
          with run show ?thesis by blast
        next
          case 2
          with same' show ?thesis by simp
        qed
      qed
      show ?thesis
      proof (cases "?now1 - stableStart \<ge> threshold")
        case quiet: True
        have "poll_count count_at timeout threshold p start lastCount stableStart now
            = Some lastCount"
          using True same quiet by (subst poll_count.simps) (simp add: m Let_def)
        moreover have "quiet_poll count_at start p threshold (Suc k)"
          unfolding quiet_poll_def
        proof (intro exI conjI)
          show "j < Suc k" using jk by simp
          show "\<forall>i \<in> {j..Suc k}. count_at (poll_time start p i)
                  = count_at (poll_time start p (Suc k))"
            by (simp only: same') (rule run')
          show "threshold \<le> poll_time start p (Suc k) - poll_time start p j"
            using quiet now1 ss by simp
        qed
        then have "settles_at count_at start p timeout threshold k"
          by (simp add: settles_at_def)
        ultimately show ?thesis using last before by blast
      next
        case loud: False
        have step: "poll_count count_at timeout threshold p start lastCount stableStart now
            = poll_count count_at timeout threshold p start lastCount stableStart ?now1"
          using True same loud by (subst poll_count.simps) (simp add: m Let_def)
        have "\<not> quiet_poll count_at start p threshold (Suc k)"
        proof
          assume "quiet_poll count_at start p threshold (Suc k)"
          then obtain j' where j': "j' < Suc k"
            and all: "\<forall>i \<in> {j'..Suc k}. count_at (poll_time start p i)
                        = count_at (poll_time start p (Suc k))"
            and far: "threshold \<le> poll_time start p (Suc k) - poll_time start p j'"
            unfolding quiet_poll_def by blast
          show False
          proof (cases "j \<le> j'")
            case True
            then have "poll_time start p j \<le> poll_time start p j'"
              using poll by (rule poll_time_mono [rotated])
            with far loud now1 ss show False by simp
          next
            case False
            then have "j' \<le> j - 1" and "j - 1 < j" and j0: "j \<noteq> 0" by simp_all
            with jk have "j - 1 \<in> {j'..Suc k}" by simp
            with all have "count_at (poll_time start p (j - 1))
                = count_at (poll_time start p (Suc k))" by blast
            with same' have "count_at (poll_time start p (j - 1)) = lastCount" by simp
            with first j0 show False by blast
          qed
        qed
        with not_timed have nk: "\<not> settles_at count_at start p timeout threshold k"
          by (simp add: settles_at_def)
        have before': "\<forall>k' < Suc k. \<not> settles_at count_at start p timeout threshold k'"
          using before nk by (simp add: less_Suc_eq)
        have "\<exists>n. poll_count count_at timeout threshold p start lastCount stableStart ?now1
            = Some (count_at (poll_time start p n))
         \<and> settles_at count_at start p timeout threshold n
         \<and> (\<forall>k' < n. \<not> settles_at count_at start p timeout threshold k')"
        proof (rule less.hyps [OF dec now1 _ _ ss run' first before'])
          show "lastCount = count_at (poll_time start p (Suc k))" using same' by simp
          show "j \<le> Suc k" using jk by simp
        qed
        then show ?thesis by (simp only: step)
      qed
    qed
  qed
qed

text \<open>
  Claim C5. \<^verbatim>\<open>waitForStableCount\<close> polls the element count. It resolves with the count
  at the first poll that finds it unchanged over at least \<open>stabilityThreshold\<close>
  milliseconds. Unlike the mutation-observer waiter it has no failure: when the wait
  reaches \<open>timeout\<close> before a quiet poll, it resolves with the count of the last poll.
  With a positive poll interval it always resolves, and the count is that of the first
  poll at which the wait settles: the timeout has passed there, or the next poll is
  quiet and reads the same count.
\<close>

theorem waitForStableCount_resolves:
  assumes "0 < pollInterval_of options"
  shows "\<exists>n. waitForStableCount count_at options now
               = Some (Resolved (count_at (poll_time now (pollInterval_of options) n)))
           \<and> settles_at count_at now (pollInterval_of options) (timeout_of options)
                (stabilityThreshold_of options) n
           \<and> (\<forall>k < n. \<not> settles_at count_at now (pollInterval_of options) (timeout_of options)
                           (stabilityThreshold_of options) k)"
proof -
  have "\<exists>n. poll_count count_at (timeout_of options) (stabilityThreshold_of options)
               (pollInterval_of options) now (count_at now) now now
            = Some (count_at (poll_time now (pollInterval_of options) n))
         \<and> settles_at count_at now (pollInterval_of options) (timeout_of options)
              (stabilityThreshold_of options) n
         \<and> (\<forall>k < n. \<not> settles_at count_at now (pollInterval_of options) (timeout_of options)
                         (stabilityThreshold_of options) k)"
    by (rule poll_count_settles [OF assms, where k = 0 and j = 0])
       (simp_all add: poll_time_def)
  then show ?thesis by (auto simp add: waitForStableCount_def)
qed

lemma growing_settles:
  "settles_at growing 0 50 5000 100 1" "\<not> settles_at growing 0 50 5000 100 0"
  by (auto simp add: settles_at_def quiet_poll_def poll_time_def growing_def
      eval_nat_numeral less_Suc_eq le_Suc_eq)

theorem waitForStableCount_resolves_witness:
  "0 < pollInterval_of no_options
   \<and> settles_at growing 0 50 5000 100 1
   \<and> \<not> settles_at growing 0 50 5000 100 0
   \<and> waitForStableCount growing no_options 0 = Some (Resolved 3)"
proof -
  have p: "0 < pollInterval_of no_options"
    by (simp add: pollInterval_of_def no_options_def DEFAULT_WAIT_OPTIONS_def)
  have o: "pollInterval_of no_options = 50" "timeout_of no_options = 5000"
    "stabilityThreshold_of no_options = 100"
    by (simp_all add: pollInterval_of_def timeout_of_def stabilityThreshold_of_def
        no_options_def DEFAULT_WAIT_OPTIONS_def)
  from waitForStableCount_resolves [OF p, of growing 0] obtain n
    where r: "waitForStableCount growing no_options 0
               = Some (Resolved (growing (poll_time 0 50 n)))"
      and s: "settles_at growing 0 50 5000 100 n"
      and least: "\<forall>k < n. \<not> settles_at growing 0 50 5000 100 k"
    unfolding o by blast
  have "n = 1"
  proof (rule ccontr)
    assume "n \<noteq> 1"
    then consider "n = 0" | "1 < n" by linarith
    then show False
    proof cases
      case 1
      with s growing_settles(2) show False by simp
    next
      case 2
      with least growing_settles(1) show False by blast
    qed
  qed
  with r have "waitForStableCount growing no_options 0 = Some (Resolved 3)"
    by (simp add: poll_time_def growing_def)
  with p growing_settles show ?thesis by blast
qed

end
